theory Spec2Isabelle
  imports Main "HOL-Library.Sublist"
begin

section \<open>Strings, the GitHub pattern and path helpers\<close>

text \<open>
  JavaScript strings are modelled as \<^typ>\<open>string\<close>. The analysis entry point
  \<open>detectSSR\<close> exists in two variants: the minimal one of \<open>src/detectssr.js\<close>
  and the extended one of \<open>src/unnamed/part_000\<close>. Definitions shared by both carry
  the source's name; those of the minimal variant carry the suffix \<open>_min\<close>.
\<close>

text \<open>
  The regular expression \<open>/github\.com\/([^\/]+)\/([^\/]+)/\<close> tried at the start of
  a string. Both groups are greedy runs of characters other than a slash; giving a
  character back never helps the first group (the next character would not be a slash),
  so the matcher is deterministic.
\<close>

definition not_slash :: "char \<Rightarrow> bool" where
  "not_slash c = (c \<noteq> CHR ''/'')"

definition match_here :: "string \<Rightarrow> (string \<times> string) option" where
  "match_here s =
     (if prefix ''github.com/'' s then
        (let rest = drop 11 s;
             g1 = takeWhile not_slash rest;
             rest1 = dropWhile not_slash rest
         in if g1 = [] then None
            else (case rest1 of
                    [] \<Rightarrow> None
                  | c # rest2 \<Rightarrow>
                      (let g2 = takeWhile not_slash rest2
                       in if g2 = [] then None else Some (g1, g2))))
      else None)"

text \<open>
  An unanchored regular expression is tried at every position, leftmost first:
  \<open>githubRegex.test\<close> and \<open>repoPathOrUrl.match(githubRegex)\<close>.
\<close>

fun github_match :: "string \<Rightarrow> (string \<times> string) option" where
  "github_match [] = match_here []"
| "github_match (c # cs) =
     (case match_here (c # cs) of
        Some m \<Rightarrow> Some m
      | None \<Rightarrow> github_match cs)"

definition isGithubUrl :: "string \<Rightarrow> bool" where
  "isGithubUrl s = (github_match s \<noteq> None)"

text \<open>
  \<open>String.prototype.replace\<close> with a string pattern replaces the first occurrence of
  the pattern, wherever it is.
\<close>

fun replace_first :: "string \<Rightarrow> string \<Rightarrow> string \<Rightarrow> string" where
  "replace_first pat rep [] = (if pat = [] then rep else [])"
| "replace_first pat rep (c # cs) =
     (if prefix pat (c # cs) then rep @ drop (length pat) (c # cs)
      else c # replace_first pat rep cs)"

text \<open>
  \<open>const owner = match[1]; const repo = match[2].replace('.git', '')\<close>
\<close>

definition owner_repo :: "string \<Rightarrow> (string \<times> string) option" where
  "owner_repo s =
     (case github_match s of
        None \<Rightarrow> None
      | Some (g1, g2) \<Rightarrow> Some (g1, replace_first ''.git'' [] g2))"

text \<open>\<open>content.includes(pattern)\<close>: the pattern occurs as a contiguous substring.\<close>

fun includes_str :: "string \<Rightarrow> string \<Rightarrow> bool" where
  "includes_str [] pat = (pat = [])"
| "includes_str (c # cs) pat = (prefix pat (c # cs) \<or> includes_str cs pat)"

text \<open>\<open>item.startsWith(p)\<close>\<close>

definition startsWith :: "string \<Rightarrow> string \<Rightarrow> bool" where
  "startsWith s p = prefix p s"

text \<open>
  \<open>lib.split('/')[0]\<close>: the part of a string before its first slash (the whole string
  when it has none).
\<close>

definition split_head :: "string \<Rightarrow> string" where
  "split_head s = takeWhile not_slash s"

text \<open>
  \<open>path.join(a, b)\<close> of Node's POSIX \<open>path\<close> module: the non-empty arguments are
  joined with a slash and the result is normalised textually: empty and \<open>.\<close> segments
  are dropped, a \<open>..\<close> segment removes the segment before it, and a path that becomes
  empty is \<open>.\<close>.
\<close>

fun split_on :: "char \<Rightarrow> string \<Rightarrow> string list" where
  "split_on d [] = [[]]"
| "split_on d (c # cs) =
     (if c = d then [] # split_on d cs
      else (case split_on d cs of
              [] \<Rightarrow> [[c]]
            | w # ws \<Rightarrow> (c # w) # ws))"

fun normalizeString :: "bool \<Rightarrow> string list \<Rightarrow> string list \<Rightarrow> string list" where
  "normalizeString allowAboveRoot [] res = res"
| "normalizeString allowAboveRoot (seg # segs) res =
     (if seg = [] \<or> seg = ''.'' then normalizeString allowAboveRoot segs res
      else if seg = ''..'' then
        (if res \<noteq> [] \<and> last res \<noteq> ''..''
           then normalizeString allowAboveRoot segs (butlast res)
         else if allowAboveRoot
           then normalizeString allowAboveRoot segs (res @ [''..''])
         else normalizeString allowAboveRoot segs res)
      else normalizeString allowAboveRoot segs (res @ [seg]))"

fun join_slash :: "string list \<Rightarrow> string" where
  "join_slash [] = []"
| "join_slash [seg] = seg"
| "join_slash (seg # segs) = seg @ ''/'' @ join_slash segs"

definition normalize :: "string \<Rightarrow> string" where
  "normalize p =
     (if p = [] then ''.''
      else
        (let isAbsolute = (hd p = CHR ''/'');
             trailingSeparator = (last p = CHR ''/'');
             q = join_slash (normalizeString (\<not> isAbsolute) (split_on CHR ''/'' p) [])
         in if q = [] then
              (if isAbsolute then ''/'' else if trailingSeparator then ''./'' else ''.'')
            else
              (let q1 = (if trailingSeparator then q @ ''/'' else q)
               in if isAbsolute then ''/'' @ q1 else q1)))"

definition path_join :: "string \<Rightarrow> string \<Rightarrow> string" where
  "path_join a b =
     (if a = [] \<and> b = [] then ''.''
      else if a = [] then normalize b
      else if b = [] then normalize a
      else normalize (a @ ''/'' @ b))"

text \<open>
  \<open>path.extname(file)\<close> on a directory entry name (which holds no slash): the part
  from the last dot on, empty when the name has no dot, when its only dot is the first
  character, and for the name \<open>..\<close>.
\<close>

definition extname :: "string \<Rightarrow> string" where
  "extname name =
     (if CHR ''.'' \<notin> set name then []
      else
        (let ext = CHR ''.'' # rev (takeWhile (\<lambda>c. c \<noteq> CHR ''.'') (rev name))
         in if length name = length ext \<or> name = ''..'' then [] else ext))"

section \<open>Data model\<close>

text \<open>
  The value \<open>JSON.parse\<close> returns. An object is the list of its own properties in
  insertion order; where a key occurs twice the last binding is the property's value, as
  in a JavaScript object literal or a spread. Numbers are modelled as integers: the code
  only tests them for truthiness.
\<close>

datatype json =
    JNull
  | JBool bool
  | JNum int
  | JStr string
  | JArr "json list"
  | JObj "(string \<times> json) list"

text \<open>JavaScript truthiness, as tested by \<open>if (v)\<close> and \<open>v || w\<close>.\<close>

fun truthy :: "json \<Rightarrow> bool" where
  "truthy JNull = False"
| "truthy (JBool b) = b"
| "truthy (JNum n) = (n \<noteq> 0)"
| "truthy (JStr s) = (s \<noteq> [])"
| "truthy (JArr xs) = True"
| "truthy (JObj kvs) = True"

text \<open>\<open>obj[k]\<close> on a list of own properties; \<open>None\<close> is \<open>undefined\<close>.\<close>

definition obj_get :: "(string \<times> json) list \<Rightarrow> string \<Rightarrow> json option" where
  "obj_get kvs k = map_of (rev kvs) k"

text \<open>
  \<open>packageJson.dependencies\<close>: reading a named property of a truthy value. Only an
  object has such a property; on a number, a string, \<open>true\<close> or an array the result is
  \<open>undefined\<close>.
\<close>

fun get_prop :: "json \<Rightarrow> string \<Rightarrow> json option" where
  "get_prop (JObj kvs) k = obj_get kvs k"
| "get_prop v k = None"

function string_of_nat :: "nat \<Rightarrow> string" where
  "string_of_nat n =
     (if n < 10 then [char_of (48 + n)]
      else string_of_nat (n div 10) @ [char_of (48 + n mod 10)])"
  by pat_completeness auto
termination
  by (relation "measure (\<lambda>n. n)") auto

text \<open>
  The own enumerable properties an object spread \<open>{...v}\<close> copies: those of an
  object, the indices of an array or of a string, nothing for the other values.
\<close>

fun own_props :: "json \<Rightarrow> (string \<times> json) list" where
  "own_props (JObj kvs) = kvs"
| "own_props (JArr xs) = map (\<lambda>i. (string_of_nat i, xs ! i)) [0..<length xs]"
| "own_props (JStr s) = map (\<lambda>i. (string_of_nat i, JStr [s ! i])) [0..<length s]"
| "own_props v = []"

text \<open>\<open>(v || {})\<close> followed by the spread.\<close>

definition or_empty :: "json option \<Rightarrow> (string \<times> json) list" where
  "or_empty v =
     (case v of
        None \<Rightarrow> []
      | Some j \<Rightarrow> if truthy j then own_props j else [])"

text \<open>
  \<open>allDependencies = {...(packageJson.dependencies || {}),
  ...(packageJson.devDependencies || {})}\<close>
\<close>

definition allDependencies :: "json \<Rightarrow> (string \<times> json) list" where
  "allDependencies packageJson =
     or_empty (get_prop packageJson ''dependencies'')
     @ or_empty (get_prop packageJson ''devDependencies'')"

text \<open>\<open>if (allDependencies[dep])\<close>\<close>

definition has_dep :: "(string \<times> json) list \<Rightarrow> string \<Rightarrow> bool" where
  "has_dep deps dep =
     (case obj_get deps dep of
        None \<Rightarrow> False
      | Some v \<Rightarrow> truthy v)"

text \<open>The object \<open>results\<close> that \<open>detectSSR\<close> builds and returns.\<close>

record report =
  needsSSR :: bool
  evidence :: "string list"
  frameworkDetected :: "string option"
  confidence :: int

definition initial_report :: report where
  "initial_report =
     \<lparr>needsSSR = False, evidence = [], frameworkDetected = None, confidence = 0\<rparr>"

text \<open>\<open>results.evidence.push(line)\<close>\<close>

definition push_evidence :: "string \<Rightarrow> report \<Rightarrow> report" where
  "push_evidence line r = r\<lparr>evidence := evidence r @ [line]\<rparr>"

text \<open>\<open>results.frameworkDetected || framework\<close>: the empty string is falsy too.\<close>

definition framework_or :: "string option \<Rightarrow> string \<Rightarrow> string option" where
  "framework_or cur framework =
     (case cur of
        None \<Rightarrow> Some framework
      | Some f \<Rightarrow> if f = [] then Some framework else Some f)"

section \<open>The external collaborators\<close>

text \<open>
  What the local file system holds at a path. \<open>NoRead\<close> is a file that cannot be
  read, \<open>NoList\<close> a directory that cannot be listed, \<open>Dangling\<close> an entry that
  \<open>fs.statSync\<close> cannot resolve (a symbolic link to nothing): \<open>fs.readdirSync\<close>
  lists it, \<open>fs.existsSync\<close> is false on it and \<open>fs.statSync\<close> throws.
\<close>

datatype node =
    File string
  | NoRead
  | Dir "(string \<times> node) list"
  | NoList
  | Dangling

text \<open>
  What \<open>octokit.repos.getContent\<close> answers for a path of the remote repository: the
  array of a directory's items, a single item, or a failed request. An item has a name,
  a type (\<open>dir\<close>, \<open>file\<close>, ...) and the answer for its own path.

  The name of an item is a string, as the contents API sends it. The code does not check
  that: the extended variant pushes the \<open>name\<close> of a root item as it is, and an
  answer whose item had no string name would put a value into the structure on which
  \<open>item.startsWith\<close> throws in the directory loop, inside the \<open>try\<close> block.
  Such answers are outside this model, and no statement below is made about them.
\<close>

datatype ritem = Item string string rresp
  and rresp = Listing "ritem list" | Single ritem | Failed

text \<open>
  One remote repository as the helpers of the analysis see it: the answer for the root
  path, the result of \<open>getFileFromGithub\<close> for \<open>package.json\<close> (the decoded
  content, or \<open>null\<close> on any error), and the results of the two code searches (false
  on any error).
\<close>

record remote_repo =
  root :: rresp
  package_json :: "string option"
  search_ssr :: "string \<Rightarrow> bool"
  search_pattern :: "string \<Rightarrow> bool"

text \<open>
  The world one analysis runs in: the local file system as a function from a path string
  to what is found there, the remote repositories by owner and name, \<open>JSON.parse\<close>
  (\<open>Inl\<close> is the message of the \<open>SyntaxError\<close> it throws) and the message of the
  error a failing file system call throws, by call and path.
\<close>

record env =
  local_fs :: "string \<Rightarrow> node option"
  remote :: "string \<Rightarrow> string \<Rightarrow> remote_repo"
  json_parse :: "string \<Rightarrow> string + json"
  fs_error :: "string \<Rightarrow> string \<Rightarrow> string"

definition existsSync :: "env \<Rightarrow> string \<Rightarrow> bool" where
  "existsSync e p =
     (case local_fs e p of
        None \<Rightarrow> False
      | Some Dangling \<Rightarrow> False
      | Some n \<Rightarrow> True)"

definition readFileSync :: "env \<Rightarrow> string \<Rightarrow> string + string" where
  "readFileSync e p =
     (case local_fs e p of
        Some (File content) \<Rightarrow> Inr content
      | _ \<Rightarrow> Inl (fs_error e ''open'' p))"

fun is_directory :: "node \<Rightarrow> bool" where
  "is_directory (Dir entries) = True"
| "is_directory NoList = True"
| "is_directory n = False"

text \<open>\<open>fs.statSync(p).isDirectory()\<close>\<close>

definition statSync_isDirectory :: "env \<Rightarrow> string \<Rightarrow> string + bool" where
  "statSync_isDirectory e p =
     (case local_fs e p of
        None \<Rightarrow> Inl (fs_error e ''stat'' p)
      | Some Dangling \<Rightarrow> Inl (fs_error e ''stat'' p)
      | Some n \<Rightarrow> Inr (is_directory n))"

section \<open>The local file walk\<close>

text \<open>
  \<open>getAllFiles(dirPath, extensions, arrayOfFiles)\<close>. The array is passed down and
  extended in place; an error of \<open>fs.readdirSync\<close> or \<open>fs.statSync\<close> is not caught
  here and ends the walk. A collected file is kept with what the later
  \<open>fs.readFileSync\<close> finds at its path.
\<close>

fun getAllFiles_dir ::
    "env \<Rightarrow> string \<Rightarrow> node \<Rightarrow> string list \<Rightarrow> (string \<times> node) list
      \<Rightarrow> string + (string \<times> node) list"
  and getAllFiles_each ::
    "env \<Rightarrow> string \<Rightarrow> (string \<times> node) list \<Rightarrow> string list \<Rightarrow> (string \<times> node) list
      \<Rightarrow> string + (string \<times> node) list"
where
  "getAllFiles_dir e dirPath (Dir entries) extensions arrayOfFiles =
     getAllFiles_each e dirPath entries extensions arrayOfFiles"
| "getAllFiles_dir e dirPath (File content) extensions arrayOfFiles =
     Inl (fs_error e ''scandir'' dirPath)"
| "getAllFiles_dir e dirPath NoRead extensions arrayOfFiles =
     Inl (fs_error e ''scandir'' dirPath)"
| "getAllFiles_dir e dirPath NoList extensions arrayOfFiles =
     Inl (fs_error e ''scandir'' dirPath)"
| "getAllFiles_dir e dirPath Dangling extensions arrayOfFiles =
     Inl (fs_error e ''scandir'' dirPath)"
| "getAllFiles_each e dirPath [] extensions arrayOfFiles = Inr arrayOfFiles"
| "getAllFiles_each e dirPath ((file, n) # rest) extensions arrayOfFiles =
     (let filePath = path_join dirPath file
      in if n = Dangling then Inl (fs_error e ''stat'' filePath)
         else if is_directory n then
           (if file \<noteq> ''node_modules'' \<and> file \<noteq> ''.git'' then
              (case getAllFiles_dir e filePath n extensions arrayOfFiles of
                 Inl msg \<Rightarrow> Inl msg
               | Inr files \<Rightarrow> getAllFiles_each e dirPath rest extensions files)
            else getAllFiles_each e dirPath rest extensions arrayOfFiles)
         else if extensions = [] \<or> extname file \<in> set extensions then
           getAllFiles_each e dirPath rest extensions (arrayOfFiles @ [(filePath, n)])
         else getAllFiles_each e dirPath rest extensions arrayOfFiles)"

definition getAllFiles :: "env \<Rightarrow> string \<Rightarrow> string list \<Rightarrow> string + (string \<times> node) list" where
  "getAllFiles e dirPath extensions =
     (case local_fs e dirPath of
        None \<Rightarrow> Inl (fs_error e ''scandir'' dirPath)
      | Some n \<Rightarrow> getAllFiles_dir e dirPath n extensions [])"

definition code_extensions :: "string list" where
  "code_extensions = [''.js'', ''.jsx'', ''.ts'', ''.tsx'']"

text \<open>
  The loops of \<open>searchForSSRFunctions\<close> and \<open>searchForPattern\<close> return true at
  the first file that holds a token and skip a file that cannot be read.
\<close>

fun has_ssr_token :: "string \<times> node \<Rightarrow> bool" where
  "has_ssr_token (p, File content) =
     (includes_str content ''getServerSideProps''
      \<or> includes_str content ''getInitialProps''
      \<or> includes_str content ''getStaticProps''
      \<or> includes_str content ''export async function generateMetadata''
      \<or> includes_str content ''export const generateMetadata'')"
| "has_ssr_token (p, n) = False"

definition searchForSSRFunctions :: "env \<Rightarrow> string \<Rightarrow> string + bool" where
  "searchForSSRFunctions e dirPath =
     (case getAllFiles e dirPath code_extensions of
        Inl msg \<Rightarrow> Inl msg
      | Inr files \<Rightarrow> Inr (list_ex has_ssr_token files))"

fun has_pattern :: "string \<Rightarrow> string \<times> node \<Rightarrow> bool" where
  "has_pattern pat (p, File content) = includes_str content pat"
| "has_pattern pat (p, n) = False"

definition searchForPattern :: "env \<Rightarrow> string \<Rightarrow> string \<Rightarrow> string + bool" where
  "searchForPattern e dirPath pat =
     (case getAllFiles e dirPath code_extensions of
        Inl msg \<Rightarrow> Inl msg
      | Inr files \<Rightarrow> Inr (list_ex (has_pattern pat) files))"

section \<open>The remote directory walk\<close>

text \<open>
  \<open>buildRepoStructure(octokit, owner, repo, path, structure)\<close> of the extended
  variant. The array \<open>structure\<close> is shared by all recursive calls; a failed request
  is caught and leaves it as it is. Beside the array the state counts the
  \<open>getContent\<close> requests issued so far.
\<close>

function buildRepoStructure_at ::
    "string \<Rightarrow> rresp \<Rightarrow> string list \<times> nat \<Rightarrow> string list \<times> nat"
  and buildRepoStructure_for ::
    "string \<Rightarrow> ritem list \<Rightarrow> string list \<times> nat \<Rightarrow> string list \<times> nat"
where
  "buildRepoStructure_at path (Listing contents) (structure, requests) =
     buildRepoStructure_for path contents (structure, requests + 1)"
| "buildRepoStructure_at path (Single item) (structure, requests) =
     buildRepoStructure_for path [item] (structure, requests + 1)"
| "buildRepoStructure_at path Failed (structure, requests) = (structure, requests + 1)"
| "buildRepoStructure_for path [] st = st"
| "buildRepoStructure_for path (Item name type answer # contents) (structure, requests) =
     (let itemPath = (if path \<noteq> [] then path @ ''/'' @ name else name);
          structure1 = structure @ [itemPath]
      in buildRepoStructure_for path contents
           (if type = ''dir'' \<and> length structure1 < 100
            then buildRepoStructure_at itemPath answer (structure1, requests)
            else (structure1, requests)))"
  by pat_completeness auto
termination
  by (relation "measure (\<lambda>x. case x of
        Inl (path, answer, st) \<Rightarrow> 2 * size answer + 1
      | Inr (path, contents, st) \<Rightarrow> 2 * size_list size contents)") auto

definition buildRepoStructure :: "rresp \<Rightarrow> string list" where
  "buildRepoStructure answer = fst (buildRepoStructure_at [] answer ([], 0))"

definition buildRepoStructure_requests :: "rresp \<Rightarrow> nat" where
  "buildRepoStructure_requests answer = snd (buildRepoStructure_at [] answer ([], 0))"

text \<open>
  \<open>buildRepoStructure\<close> of the minimal variant: the names of the root listing, and
  the empty list when the request fails or its answer is not an array.
\<close>

fun item_name :: "ritem \<Rightarrow> string" where
  "item_name (Item name type answer) = name"

fun buildRepoStructure_min :: "rresp \<Rightarrow> string list" where
  "buildRepoStructure_min (Listing contents) = map item_name contents"
| "buildRepoStructure_min (Single item) = []"
| "buildRepoStructure_min Failed = []"

section \<open>The detectors\<close>

definition ssrFrameworks :: "(string \<times> string) list" where
  "ssrFrameworks =
     [(''next'', ''Next.js''),
      (''nuxt'', ''Nuxt.js''),
      (''@nuxt/core'', ''Nuxt.js''),
      (''@sveltejs/kit'', ''SvelteKit''),
      (''@remix-run/react'', ''Remix''),
      (''gatsby'', ''Gatsby''),
      (''angular-universal'', ''Angular Universal''),
      (''@angular/platform-server'', ''Angular Universal''),
      (''@nestjs/ng-universal'', ''Nest.js with Angular Universal'')]"

definition ssrLibraries :: "string list" where
  "ssrLibraries =
     [''react-dom/server'',
      ''vue-server-renderer'',
      ''preact-render-to-string'',
      ''svelte/server'',
      ''express-react-views'']"

definition serverPackages :: "string list" where
  "serverPackages = [''express'', ''koa'', ''fastify'', ''hapi'', ''@nestjs/core'']"

definition configFiles :: "(string \<times> string) list" where
  "configFiles =
     [(''next.config.js'', ''Next.js''),
      (''nuxt.config.js'', ''Nuxt.js''),
      (''svelte.config.js'', ''SvelteKit''),
      (''remix.config.js'', ''Remix''),
      (''gatsby-config.js'', ''Gatsby''),
      (''angular.json'', ''Angular'')]"

definition ssrDirectories :: "(string \<times> string) list" where
  "ssrDirectories =
     [(''pages'', ''Next.js''),
      (''pages/api'', ''Next.js API Routes''),
      (''app'', ''Next.js App Router''),
      (''server'', ''Generic Server''),
      (''serverless'', ''Serverless Functions''),
      (''api'', ''API Routes''),
      (''functions'', ''Serverless Functions''),
      (''lambda'', ''AWS Lambda Functions'')]"

text \<open>The body of the loop over \<open>Object.entries(ssrFrameworks)\<close>.\<close>

fun framework_step :: "(string \<times> json) list \<Rightarrow> string \<times> string \<Rightarrow> report \<Rightarrow> report" where
  "framework_step deps (dep, framework) r =
     (if has_dep deps dep then
        r\<lparr>evidence := evidence r @ [''Found SSR framework: '' @ framework @ '' ('' @ dep @ '')''],
          frameworkDetected := Some framework,
          confidence := confidence r + 30,
          needsSSR := True\<rparr>
      else r)"

definition library_step :: "(string \<times> json) list \<Rightarrow> string \<Rightarrow> report \<Rightarrow> report" where
  "library_step deps lib r =
     (let libName = split_head lib
      in if has_dep deps libName then
           r\<lparr>evidence := evidence r @ [''Found potential SSR library: '' @ libName],
             confidence := confidence r + 10\<rparr>
         else r)"

definition package_step :: "(string \<times> json) list \<Rightarrow> string \<Rightarrow> report \<Rightarrow> report" where
  "package_step deps pkg r =
     (if has_dep deps pkg then
        r\<lparr>evidence := evidence r @ [''Found server package: '' @ pkg],
          confidence := confidence r + 5\<rparr>
      else r)"

text \<open>
  \<open>if (packageJson) { ... }\<close>: the three loops of the extended variant over the merged
  dependencies, and the single loop of the minimal one.
\<close>

definition manifest_detector :: "json option \<Rightarrow> report \<Rightarrow> report" where
  "manifest_detector packageJson r =
     (case packageJson of
        None \<Rightarrow> r
      | Some pj \<Rightarrow>
          if truthy pj then
            (let deps = allDependencies pj;
                 r1 = fold (framework_step deps) ssrFrameworks r;
                 r2 = fold (library_step deps) ssrLibraries r1
             in fold (package_step deps) serverPackages r2)
          else r)"

definition manifest_detector_min :: "json option \<Rightarrow> report \<Rightarrow> report" where
  "manifest_detector_min packageJson r =
     (case packageJson of
        None \<Rightarrow> r
      | Some pj \<Rightarrow>
          if truthy pj then fold (framework_step (allDependencies pj)) ssrFrameworks r
          else r)"

text \<open>The body of the loops over \<open>Object.entries(configFiles)\<close>.\<close>

fun config_step :: "(string \<Rightarrow> bool) \<Rightarrow> string \<times> string \<Rightarrow> report \<Rightarrow> report" where
  "config_step fileExists (file, framework) r =
     (if fileExists file then
        r\<lparr>evidence := evidence r @ [''Found configuration file for '' @ framework @ '': '' @ file],
          frameworkDetected := framework_or (frameworkDetected r) framework,
          confidence := confidence r + 20,
          needsSSR := True\<rparr>
      else r)"

text \<open>
  The configuration file detector: in remote mode a file exists when the collected
  structure holds its name, in local mode when \<open>fs.existsSync\<close> says so of the joined
  path. The same code serves both variants.
\<close>

definition config_detector :: "env \<Rightarrow> string \<Rightarrow> string list \<Rightarrow> report \<Rightarrow> report" where
  "config_detector e repoPathOrUrl repoStructure r =
     (case owner_repo repoPathOrUrl of
        Some (owner, repo) \<Rightarrow>
          fold (config_step (\<lambda>file. file \<in> set repoStructure)) configFiles r
      | None \<Rightarrow>
          fold (config_step (\<lambda>file. existsSync e (path_join repoPathOrUrl file))) configFiles r)"

text \<open>
  A thrown error is \<open>Inl\<close> of its message and of the report as it was when the error
  was thrown: \<open>results\<close> is updated in place, so what was recorded before stays.
\<close>

type_synonym outcome = "(string \<times> report) + report"

definition ssr_functions_found :: "string \<Rightarrow> report \<Rightarrow> report" where
  "ssr_functions_found dir r =
     r\<lparr>evidence := evidence r
          @ [''Found SSR functions (getServerSideProps or getInitialProps) in '' @ dir],
       confidence := confidence r + 15,
       needsSSR := True\<rparr>"

definition directory_found :: "string \<Rightarrow> string \<Rightarrow> report \<Rightarrow> report" where
  "directory_found dir framework r =
     r\<lparr>evidence := evidence r
          @ [''Found SSR-related directory: '' @ dir @ '' (indicates '' @ framework @ '')''],
       confidence := confidence r + 10\<rparr>"

text \<open>
  The directory loop in remote mode; the search helper catches its own errors, and
  \<open>startsWith\<close> does not throw on the strings the structure holds here.
\<close>

fun directory_step_remote ::
    "remote_repo \<Rightarrow> string list \<Rightarrow> string \<times> string \<Rightarrow> report \<Rightarrow> report" where
  "directory_step_remote rr repoStructure (dir, framework) r =
     (if list_ex (\<lambda>item. item = dir \<or> startsWith item (dir @ ''/'')) repoStructure then
        (let r1 = directory_found dir framework r
         in if dir = ''pages'' \<or> dir = ''app'' then
              (if search_ssr rr dir then ssr_functions_found dir r1 else r1)
            else r1)
      else r)"

text \<open>
  The directory loop in local mode; \<open>fs.statSync\<close> and the file walk of
  \<open>searchForSSRFunctions\<close> may throw, which leaves the loop.
\<close>

fun directory_loop_local ::
    "env \<Rightarrow> string \<Rightarrow> (string \<times> string) list \<Rightarrow> report \<Rightarrow> outcome" where
  "directory_loop_local e repoPath [] r = Inr r"
| "directory_loop_local e repoPath ((dir, framework) # rest) r =
     (let dirPath = path_join repoPath dir
      in if existsSync e dirPath then
           (case statSync_isDirectory e dirPath of
              Inl msg \<Rightarrow> Inl (msg, r)
            | Inr isDir \<Rightarrow>
                if isDir then
                  (let r1 = directory_found dir framework r
                   in if dir = ''pages'' \<or> dir = ''app'' then
                        (case searchForSSRFunctions e dirPath of
                           Inl msg \<Rightarrow> Inl (msg, r1)
                         | Inr hasSSRFunctions \<Rightarrow>
                             directory_loop_local e repoPath rest
                               (if hasSSRFunctions then ssr_functions_found dir r1 else r1))
                      else directory_loop_local e repoPath rest r1)
                else directory_loop_local e repoPath rest r)
         else directory_loop_local e repoPath rest r)"

definition directory_detector :: "env \<Rightarrow> string \<Rightarrow> string list \<Rightarrow> report \<Rightarrow> outcome" where
  "directory_detector e repoPathOrUrl repoStructure r =
     (case owner_repo repoPathOrUrl of
        Some (owner, repo) \<Rightarrow>
          Inr (fold (directory_step_remote (remote e owner repo) repoStructure) ssrDirectories r)
      | None \<Rightarrow> directory_loop_local e repoPathOrUrl ssrDirectories r)"

definition render_found :: "report \<Rightarrow> report" where
  "render_found r =
     r\<lparr>evidence := evidence r @ [''Found renderToString calls (React SSR)''],
       confidence := confidence r + 15,
       needsSSR := True\<rparr>"

definition pattern_detector :: "env \<Rightarrow> string \<Rightarrow> report \<Rightarrow> outcome" where
  "pattern_detector e repoPathOrUrl r =
     (case owner_repo repoPathOrUrl of
        Some (owner, repo) \<Rightarrow>
          Inr (if search_pattern (remote e owner repo) ''renderToString''
               then render_found r else r)
      | None \<Rightarrow>
          (case searchForPattern e repoPathOrUrl ''renderToString'' of
             Inl msg \<Rightarrow> Inl (msg, r)
           | Inr hasRenderToString \<Rightarrow> Inr (if hasRenderToString then render_found r else r)))"

text \<open>\<open>if (results.confidence > 30) results.needsSSR = true\<close>\<close>

definition final_rule :: "report \<Rightarrow> report" where
  "final_rule r = (if confidence r > 30 then r\<lparr>needsSSR := True\<rparr> else r)"

section \<open>The analysis\<close>

text \<open>
  The first part of the \<open>try\<close> block: classify the input, and find and parse the
  manifest. The test \<open>githubRegex.test\<close> and the later \<open>match\<close> calls use the same
  expression on the same string, so the input is remote exactly when \<open>owner_repo\<close>
  finds a match. The result is the parsed manifest (\<open>None\<close> is \<open>null\<close>), the
  collected structure and the report. The token only changes what the remote side
  answers, which is part of the environment here. The extended variant also stores the
  root contents in \<open>repoContents\<close>, which it never reads; the helper that fetches
  them catches its own errors.
\<close>

definition parse_manifest ::
    "env \<Rightarrow> string \<Rightarrow> string list \<Rightarrow> report \<Rightarrow> (string \<times> report) + (json option \<times> string list \<times> report)" where
  "parse_manifest e content repoStructure r =
     (case json_parse e content of
        Inl msg \<Rightarrow> Inl (msg, r)
      | Inr pj \<Rightarrow> Inr (Some pj, repoStructure, r))"

definition load_local ::
    "env \<Rightarrow> string \<Rightarrow> report \<Rightarrow> (string \<times> report) + (json option \<times> string list \<times> report)" where
  "load_local e repoPath r =
     (let packageJsonPath = path_join repoPath ''package.json''
      in if existsSync e packageJsonPath then
           (case readFileSync e packageJsonPath of
              Inl msg \<Rightarrow> Inl (msg, r)
            | Inr content \<Rightarrow> parse_manifest e content [] r)
         else Inr (None, [], r))"

definition load_remote ::
    "env \<Rightarrow> (rresp \<Rightarrow> string list) \<Rightarrow> string \<Rightarrow> string \<Rightarrow> report
      \<Rightarrow> (string \<times> report) + (json option \<times> string list \<times> report)" where
  "load_remote e build owner repo r =
     (let r1 = push_evidence (''Analyzing GitHub repository: '' @ owner @ ''/'' @ repo) r;
          repoStructure = build (root (remote e owner repo))
      in case package_json (remote e owner repo) of
           None \<Rightarrow> Inr (None, repoStructure, r1)
         | Some content \<Rightarrow>
             if content = [] then Inr (None, repoStructure, r1)
             else parse_manifest e content repoStructure r1)"

definition load ::
    "env \<Rightarrow> (rresp \<Rightarrow> string list) \<Rightarrow> string \<Rightarrow> report
      \<Rightarrow> (string \<times> report) + (json option \<times> string list \<times> report)" where
  "load e build repoPathOrUrl r =
     (case owner_repo repoPathOrUrl of
        Some (owner, repo) \<Rightarrow> load_remote e build owner repo r
      | None \<Rightarrow> load_local e repoPathOrUrl r)"

text \<open>The \<open>try\<close> block of the extended variant.\<close>

definition detectSSR_try :: "env \<Rightarrow> string \<Rightarrow> outcome" where
  "detectSSR_try e repoPathOrUrl =
     (case load e buildRepoStructure repoPathOrUrl initial_report of
        Inl thrown \<Rightarrow> Inl thrown
      | Inr (packageJson, repoStructure, r0) \<Rightarrow>
          (let r1 = manifest_detector packageJson r0;
               r2 = config_detector e repoPathOrUrl repoStructure r1
           in case directory_detector e repoPathOrUrl repoStructure r2 of
                Inl thrown \<Rightarrow> Inl thrown
              | Inr r3 \<Rightarrow>
                  (case pattern_detector e repoPathOrUrl r3 of
                     Inl thrown \<Rightarrow> Inl thrown
                   | Inr r4 \<Rightarrow> Inr (final_rule r4))))"

text \<open>The \<open>try\<close> block of the minimal variant.\<close>

definition detectSSR_try_min :: "env \<Rightarrow> string \<Rightarrow> outcome" where
  "detectSSR_try_min e repoPathOrUrl =
     (case load e buildRepoStructure_min repoPathOrUrl initial_report of
        Inl thrown \<Rightarrow> Inl thrown
      | Inr (packageJson, repoStructure, r0) \<Rightarrow>
          (let r1 = manifest_detector_min packageJson r0;
               r2 = config_detector e repoPathOrUrl repoStructure r1
           in Inr (final_rule r2)))"

text \<open>
  \<open>catch (error) { results.evidence.push(`Error analyzing repository: ${error.message}`) }\<close>
  and \<open>return results\<close>.
\<close>

fun catch_all :: "outcome \<Rightarrow> report" where
  "catch_all (Inr r) = r"
| "catch_all (Inl (msg, r)) = push_evidence (''Error analyzing repository: '' @ msg) r"

definition detectSSR :: "env \<Rightarrow> string \<Rightarrow> report" where
  "detectSSR e repoPathOrUrl = catch_all (detectSSR_try e repoPathOrUrl)"

definition detectSSR_min :: "env \<Rightarrow> string \<Rightarrow> report" where
  "detectSSR_min e repoPathOrUrl = catch_all (detectSSR_try_min e repoPathOrUrl)"

section \<open>Notions used in the statements\<close>

text \<open>The report an outcome carries, thrown or not.\<close>

fun report_of :: "outcome \<Rightarrow> report" where
  "report_of (Inr r) = r"
| "report_of (Inl (msg, r)) = r"

text \<open>An evidence line written by the \<open>catch\<close> block.\<close>

definition error_line :: "string \<Rightarrow> bool" where
  "error_line l = prefix ''Error analyzing repository: '' l"

text \<open>
  One report comes after another in a run: the verdict is not taken back, the score does
  not drop, and the evidence is extended by lines that are not error lines.
\<close>

definition advances :: "report \<Rightarrow> report \<Rightarrow> bool" where
  "advances r r' =
     ((needsSSR r \<longrightarrow> needsSSR r') \<and> confidence r \<le> confidence r'
      \<and> (\<exists>new. evidence r' = evidence r @ new \<and> (\<forall>l \<in> set new. \<not> error_line l)))"

text \<open>The same, and a framework name that is set stays as it is.\<close>

definition settled :: "report \<Rightarrow> report \<Rightarrow> bool" where
  "settled r r' =
     (advances r r'
      \<and> (\<forall>f. frameworkDetected r = Some f \<and> f \<noteq> [] \<longrightarrow> frameworkDetected r' = Some f))"

text \<open>
  The report as it is when the manifest has been looked for: the initial one, with the
  line that names the repository in remote mode.
\<close>

definition start_report :: "string \<Rightarrow> report" where
  "start_report repoPathOrUrl =
     (case owner_repo repoPathOrUrl of
        None \<Rightarrow> initial_report
      | Some (owner, repo) \<Rightarrow>
          push_evidence (''Analyzing GitHub repository: '' @ owner @ ''/'' @ repo) initial_report)"

text \<open>A report whose score counts only findings that set the verdict.\<close>

definition scored :: "report \<Rightarrow> bool" where
  "scored r = (confidence r \<noteq> 0 \<longrightarrow> needsSSR r)"

text \<open>
  The analysis finds a manifest and \<open>JSON.parse\<close> turns it into the value
  \<open>pj\<close>: in remote mode \<open>getFileFromGithub\<close> returns a non-empty content, in
  local mode \<open>package.json\<close> exists under the given path and can be read.
\<close>

definition manifest_found :: "env \<Rightarrow> string \<Rightarrow> json \<Rightarrow> bool" where
  "manifest_found e repoPathOrUrl pj =
     (case owner_repo repoPathOrUrl of
        Some (owner, repo) \<Rightarrow>
          (case package_json (remote e owner repo) of
             None \<Rightarrow> False
           | Some content \<Rightarrow> content \<noteq> [] \<and> json_parse e content = Inr pj)
      | None \<Rightarrow>
          existsSync e (path_join repoPathOrUrl ''package.json'')
          \<and> (case readFileSync e (path_join repoPathOrUrl ''package.json'') of
                Inl msg \<Rightarrow> False
              | Inr content \<Rightarrow> json_parse e content = Inr pj))"

text \<open>
  The analysis finds a manifest that is malformed: \<open>JSON.parse\<close> throws a
  \<open>SyntaxError\<close> with the message \<open>msg\<close>.
\<close>

definition manifest_rejected :: "env \<Rightarrow> string \<Rightarrow> string \<Rightarrow> bool" where
  "manifest_rejected e repoPathOrUrl msg =
     (case owner_repo repoPathOrUrl of
        Some (owner, repo) \<Rightarrow>
          (case package_json (remote e owner repo) of
             None \<Rightarrow> False
           | Some content \<Rightarrow> content \<noteq> [] \<and> json_parse e content = Inl msg)
      | None \<Rightarrow>
          existsSync e (path_join repoPathOrUrl ''package.json'')
          \<and> (case readFileSync e (path_join repoPathOrUrl ''package.json'') of
                Inl m \<Rightarrow> False
              | Inr content \<Rightarrow> json_parse e content = Inl msg))"



section \<open>Example worlds\<close>

text \<open>
  A world with the given local file system and parser, in which every remote request
  fails. A failing file system call reports a missing entry, in Node's wording
  (\<open>ENOENT: no such file or directory, stat '/proj/link'\<close>): the entries that
  fail in the examples below are missing ones.
\<close>

definition world :: "(string \<Rightarrow> node option) \<Rightarrow> (string \<Rightarrow> string + json) \<Rightarrow> env" where
  "world fs parse =
     \<lparr>local_fs = fs,
      remote = (\<lambda>owner repo.
        \<lparr>root = Failed, package_json = None,
         search_ssr = (\<lambda>dir. False), search_pattern = (\<lambda>pat. False)\<rparr>),
      json_parse = parse,
      fs_error = (\<lambda>call p.
        ''ENOENT: no such file or directory, '' @ call @ '' '' @ [CHR 0x27] @ p @ [CHR 0x27])\<rparr>"

text \<open>The file system that holds one directory \<open>/proj\<close> with the given entries.\<close>

definition project_fs :: "(string \<times> node) list \<Rightarrow> string \<Rightarrow> node option" where
  "project_fs entries =
     map_of ((''/proj'', Dir entries) # map (\<lambda>(name, n). (''/proj/'' @ name, n)) entries)"


definition manifest_next :: string where
  "manifest_next = ''{\"dependencies\":{\"next\":\"13.0.0\"}}''"

definition manifest_next_nuxt :: string where
  "manifest_next_nuxt = ''{\"dependencies\":{\"next\":\"13.0.0\",\"nuxt\":\"3.0.0\"}}''"

definition manifest_next_empty :: string where
  "manifest_next_empty = ''{\"dependencies\":{\"next\":\"\"}}''"

definition manifest_libraries :: string where
  "manifest_libraries =
     ''{\"dependencies\":{\"react-dom\":\"18.2.0\",\"vue-server-renderer\":\"2.7.0\",\"preact-render-to-string\":\"6.0.0\",\"svelte\":\"4.0.0\"}}''"

definition manifest_truncated :: string where
  "manifest_truncated = ''{\"dependencies\":''"

text \<open>What \<open>JSON.parse\<close> makes of the example manifests.\<close>

definition example_parse :: "string \<Rightarrow> string + json" where
  "example_parse s =
     (if s = manifest_next then
        Inr (JObj [(''dependencies'', JObj [(''next'', JStr ''13.0.0'')])])
      else if s = manifest_next_nuxt then
        Inr (JObj [(''dependencies'',
               JObj [(''next'', JStr ''13.0.0''), (''nuxt'', JStr ''3.0.0'')])])
      else if s = manifest_next_empty then
        Inr (JObj [(''dependencies'', JObj [(''next'', JStr [])])])
      else if s = manifest_libraries then
        Inr (JObj [(''dependencies'',
               JObj [(''react-dom'', JStr ''18.2.0''),
                     (''vue-server-renderer'', JStr ''2.7.0''),
                     (''preact-render-to-string'', JStr ''6.0.0''),
                     (''svelte'', JStr ''4.0.0'')])])
      else Inl ''Unexpected end of JSON input'')"

section \<open>The GitHub pattern\<close>

lemma match_here_segments:
  assumes "owner \<noteq> []" "CHR ''/'' \<notin> set owner" "repo \<noteq> []" "CHR ''/'' \<notin> set repo"
  shows "match_here (''github.com/'' @ owner @ ''/'' @ repo @ post)
         = Some (owner, repo @ takeWhile not_slash post)"
proof -
  have o: "\<And>x. x \<in> set owner \<Longrightarrow> not_slash x" using assms(2) by (auto simp: not_slash_def)
  have r: "\<And>x. x \<in> set repo \<Longrightarrow> not_slash x" using assms(4) by (auto simp: not_slash_def)
  have t1: "takeWhile not_slash (owner @ ''/'' @ repo @ post) = owner"
    using o by (simp add: takeWhile_append2 not_slash_def)
  have d1: "dropWhile not_slash (owner @ ''/'' @ repo @ post) = ''/'' @ repo @ post"
    using o by (simp add: dropWhile_append2 not_slash_def)
  have t2: "takeWhile not_slash (repo @ post) = repo @ takeWhile not_slash post"
    using r by (simp add: takeWhile_append2)
  show ?thesis
    using assms(1,3) t1 d1 t2 by (simp add: match_here_def)
qed

lemma github_match_cons: "match_here s \<noteq> None \<Longrightarrow> github_match s \<noteq> None"
  by (cases s) auto

lemma github_match_append: "github_match s \<noteq> None \<Longrightarrow> github_match (pre @ s) \<noteq> None"
  by (induction pre) (auto split: option.splits)

section \<open>Reports only grow\<close>

lemma advances_refl: "advances r r"
  by (simp add: advances_def)

lemma advances_trans: "advances a b \<Longrightarrow> advances b c \<Longrightarrow> advances a c"
  unfolding advances_def by (elim conjE exE) (auto intro: order_trans)

lemma settled_refl: "settled r r"
  by (simp add: settled_def advances_refl)

lemma settled_trans: "settled a b \<Longrightarrow> settled b c \<Longrightarrow> settled a c"
  unfolding settled_def using advances_trans by blast

lemma settled_advances: "settled a b \<Longrightarrow> advances a b"
  by (simp add: settled_def)

lemma advances_fold:
  assumes "\<And>x r. advances r (f x r)"
  shows "advances r (fold f xs r)"
proof (induction xs arbitrary: r)
  case Nil
  show ?case by (simp add: advances_refl)
next
  case (Cons x xs)
  have "advances r (f x r)" by (rule assms)
  moreover have "advances (f x r) (fold f xs (f x r))" by (rule Cons.IH)
  ultimately show ?case using advances_trans by simp
qed

lemma settled_fold:
  assumes "\<And>x r. settled r (f x r)"
  shows "settled r (fold f xs r)"
proof (induction xs arbitrary: r)
  case Nil
  show ?case by (simp add: settled_refl)
next
  case (Cons x xs)
  have "settled r (f x r)" by (rule assms)
  moreover have "settled (f x r) (fold f xs (f x r))" by (rule Cons.IH)
  ultimately show ?case using settled_trans by simp
qed

lemma advances_framework_step: "advances r (framework_step deps x r)"
  by (cases x) (simp add: advances_def error_line_def)

lemma settled_library_step: "settled r (library_step deps lib r)"
  by (simp add: settled_def advances_def error_line_def library_step_def Let_def)

lemma settled_package_step: "settled r (package_step deps pkg r)"
  by (simp add: settled_def advances_def error_line_def package_step_def)

lemma settled_config_step: "settled r (config_step ex x r)"
  by (cases x) (simp add: settled_def advances_def error_line_def framework_or_def)

lemma settled_directory_found: "settled r (directory_found d f r)"
  by (simp add: settled_def advances_def error_line_def directory_found_def)

lemma settled_ssr_functions_found: "settled r (ssr_functions_found d r)"
  by (simp add: settled_def advances_def error_line_def ssr_functions_found_def)

lemma settled_render_found: "settled r (render_found r)"
  by (simp add: settled_def advances_def error_line_def render_found_def)

lemma settled_final_rule: "settled r (final_rule r)"
  by (simp add: settled_def advances_def final_rule_def)

lemma settled_directory_step_remote: "settled r (directory_step_remote rr st x r)"
proof (cases x)
  case (Pair d f)
  have a: "settled r (directory_found d f r)" by (rule settled_directory_found)
  have b: "settled (directory_found d f r) (ssr_functions_found d (directory_found d f r))"
    by (rule settled_ssr_functions_found)
  from a b have c: "settled r (ssr_functions_found d (directory_found d f r))"
    by (rule settled_trans)
  show ?thesis using Pair a c by (auto simp: Let_def settled_refl)
qed

lemma settled_config_detector: "settled r (config_detector e s st r)"
  by (simp add: config_detector_def settled_fold settled_config_step split: option.splits)

lemma settled_directory_loop_local:
  "settled r (report_of (directory_loop_local e p ds r))"
proof (induction ds arbitrary: r)
  case Nil
  show ?case by (simp add: settled_refl)
next
  case (Cons x ds)
  obtain d f where x: "x = (d, f)" by (cases x)
  let ?r1 = "directory_found d f r"
  let ?r2 = "ssr_functions_found d ?r1"
  have a: "settled r ?r1" by (rule settled_directory_found)
  have c: "settled r ?r2" using a settled_ssr_functions_found settled_trans by blast
  have k0: "settled r (report_of (directory_loop_local e p ds r))" by (rule Cons.IH)
  have k1: "settled r (report_of (directory_loop_local e p ds ?r1))"
    using a Cons.IH settled_trans by blast
  have k2: "settled r (report_of (directory_loop_local e p ds ?r2))"
    using c Cons.IH settled_trans by blast
  show ?case
    using a k0 k1 k2 x
    by (auto simp: Let_def settled_refl split: sum.splits)
qed

lemma settled_directory_detector:
  "settled r (report_of (directory_detector e s st r))"
  by (simp add: directory_detector_def settled_fold settled_directory_step_remote
      settled_directory_loop_local split: option.splits)

lemma settled_pattern_detector: "settled r (report_of (pattern_detector e s r))"
  by (simp add: pattern_detector_def settled_refl settled_render_found
      split: option.splits sum.splits)

lemma advances_manifest_detector: "advances r (manifest_detector pj r)"
proof -
  have a: "advances r (fold (framework_step deps) ssrFrameworks r)" for deps r
    by (rule advances_fold) (rule advances_framework_step)
  have b: "advances r (fold (library_step deps) ssrLibraries r)" for deps r
    by (rule advances_fold) (rule settled_advances [OF settled_library_step])
  have c: "advances r (fold (package_step deps) serverPackages r)" for deps r
    by (rule advances_fold) (rule settled_advances [OF settled_package_step])
  have d: "advances r (fold (package_step deps) serverPackages
             (fold (library_step deps) ssrLibraries
               (fold (framework_step deps) ssrFrameworks r)))" for deps
    by (rule advances_trans [OF a advances_trans [OF b c]])
  show ?thesis
    using d by (simp add: manifest_detector_def Let_def advances_refl split: option.splits)
qed

lemma advances_manifest_detector_min: "advances r (manifest_detector_min pj r)"
  by (simp add: manifest_detector_min_def advances_refl advances_fold advances_framework_step
      split: option.splits)

lemma isGithubUrl_owner_repo: "isGithubUrl s = (owner_repo s \<noteq> None)"
  by (simp add: isGithubUrl_def owner_repo_def split: option.splits)

lemma remote_phases_ignore_local_fs:
  assumes "owner_repo s = Some (ow, rp)"
  shows "load (e\<lparr>local_fs := fs\<rparr>) b s r = load e b s r"
    and "config_detector (e\<lparr>local_fs := fs\<rparr>) s st r = config_detector e s st r"
    and "directory_detector (e\<lparr>local_fs := fs\<rparr>) s st r = directory_detector e s st r"
    and "pattern_detector (e\<lparr>local_fs := fs\<rparr>) s r = pattern_detector e s r"
  using assms
  by (simp_all add: load_def load_remote_def parse_manifest_def config_detector_def
      directory_detector_def pattern_detector_def Let_def split: option.splits)

lemma remote_ignores_local_fs:
  assumes "owner_repo s = Some (ow, rp)"
  shows "detectSSR_try (e\<lparr>local_fs := fs\<rparr>) s = detectSSR_try e s"
    and "detectSSR_try_min (e\<lparr>local_fs := fs\<rparr>) s = detectSSR_try_min e s"
  by (simp_all add: detectSSR_try_def detectSSR_try_min_def Let_def
      remote_phases_ignore_local_fs [OF assms] split: sum.splits prod.splits)


section \<open>The run as a whole\<close>

lemma load_report:
  "load e b s initial_report = Inl (msg, r) \<Longrightarrow> r = start_report s"
  "load e b s initial_report = Inr (pj, st, r) \<Longrightarrow> r = start_report s"
  by (auto simp: load_def load_local_def load_remote_def parse_manifest_def start_report_def
      Let_def split: option.splits sum.splits if_splits)

lemma settled_after_manifest:
  "settled r1 (report_of
     (case directory_detector e s st (config_detector e s st r1) of
        Inl thrown \<Rightarrow> Inl thrown
      | Inr r3 \<Rightarrow>
          (case pattern_detector e s r3 of
             Inl thrown \<Rightarrow> Inl thrown
           | Inr r4 \<Rightarrow> Inr (final_rule r4))))"
proof -
  let ?r2 = "config_detector e s st r1"
  have a: "settled r1 ?r2" by (rule settled_config_detector)
  have b: "settled ?r2 (report_of (directory_detector e s st ?r2))"
    by (rule settled_directory_detector)
  show ?thesis
  proof (cases "directory_detector e s st ?r2")
    case (Inl t)
    then show ?thesis using a b settled_trans by (cases t) auto
  next
    case (Inr r3)
    have c: "settled r1 r3" using a b Inr settled_trans by fastforce
    have d: "settled r3 (report_of (pattern_detector e s r3))"
      by (rule settled_pattern_detector)
    show ?thesis
    proof (cases "pattern_detector e s r3")
      case (Inl t)
      then show ?thesis using Inr c d settled_trans by (cases t) auto
    next
      case r4: (Inr r4)
      have "settled r1 r4" using c d r4 settled_trans by fastforce
      then have "settled r1 (final_rule r4)"
        using settled_final_rule settled_trans by blast
      then show ?thesis using Inr r4 by simp
    qed
  qed
qed

lemma settled_after_manifest_min:
  "settled r1 (final_rule (config_detector e s st r1))"
  using settled_config_detector settled_final_rule settled_trans by blast

lemma try_cases:
  "(\<exists>msg. detectSSR_try e s = Inl (msg, start_report s))
   \<or> (\<exists>pj st. load e buildRepoStructure s initial_report = Inr (pj, st, start_report s)
        \<and> detectSSR_try e s =
           (case directory_detector e s st
                   (config_detector e s st (manifest_detector pj (start_report s))) of
              Inl thrown \<Rightarrow> Inl thrown
            | Inr r3 \<Rightarrow>
                (case pattern_detector e s r3 of
                   Inl thrown \<Rightarrow> Inl thrown
                 | Inr r4 \<Rightarrow> Inr (final_rule r4))))"
proof (cases "load e buildRepoStructure s initial_report")
  case (Inl t)
  obtain msg r where t: "t = (msg, r)" by (cases t)
  have "r = start_report s" using Inl t load_report(1) by blast
  then show ?thesis using Inl t by (simp add: detectSSR_try_def)
next
  case (Inr x)
  obtain pj st r where x: "x = (pj, st, r)" by (cases x)
  have "r = start_report s" using Inr x load_report(2) by blast
  then show ?thesis using Inr x by (simp add: detectSSR_try_def Let_def)
qed

lemma try_min_cases:
  "(\<exists>msg. detectSSR_try_min e s = Inl (msg, start_report s))
   \<or> (\<exists>pj st. load e buildRepoStructure_min s initial_report = Inr (pj, st, start_report s)
        \<and> detectSSR_try_min e s =
           Inr (final_rule (config_detector e s st (manifest_detector_min pj (start_report s)))))"
proof (cases "load e buildRepoStructure_min s initial_report")
  case (Inl t)
  obtain msg r where t: "t = (msg, r)" by (cases t)
  have "r = start_report s" using Inl t load_report(1) by blast
  then show ?thesis using Inl t by (simp add: detectSSR_try_min_def)
next
  case (Inr x)
  obtain pj st r where x: "x = (pj, st, r)" by (cases x)
  have "r = start_report s" using Inr x load_report(2) by blast
  then show ?thesis using Inr x by (simp add: detectSSR_try_min_def Let_def)
qed

lemma try_advances: "advances (start_report s) (report_of (detectSSR_try e s))"
  using try_cases [of e s]
proof (elim disjE exE conjE)
  fix msg assume "detectSSR_try e s = Inl (msg, start_report s)"
  then show ?thesis by (simp add: advances_refl)
next
  fix pj st
  assume t: "detectSSR_try e s =
           (case directory_detector e s st
                   (config_detector e s st (manifest_detector pj (start_report s))) of
              Inl thrown \<Rightarrow> Inl thrown
            | Inr r3 \<Rightarrow>
                (case pattern_detector e s r3 of
                   Inl thrown \<Rightarrow> Inl thrown
                 | Inr r4 \<Rightarrow> Inr (final_rule r4)))"
  have a: "advances (start_report s) (manifest_detector pj (start_report s))"
    by (rule advances_manifest_detector)
  have b: "advances (manifest_detector pj (start_report s)) (report_of (detectSSR_try e s))"
    unfolding t by (rule settled_advances [OF settled_after_manifest])
  show ?thesis by (rule advances_trans [OF a b])
qed

lemma try_min_advances: "advances (start_report s) (report_of (detectSSR_try_min e s))"
  using try_min_cases [of e s]
proof (elim disjE exE conjE)
  fix msg assume "detectSSR_try_min e s = Inl (msg, start_report s)"
  then show ?thesis by (simp add: advances_refl)
next
  fix pj st
  assume t: "detectSSR_try_min e s =
           Inr (final_rule (config_detector e s st (manifest_detector_min pj (start_report s))))"
  have a: "advances (start_report s) (manifest_detector_min pj (start_report s))"
    by (rule advances_manifest_detector_min)
  have b: "advances (manifest_detector_min pj (start_report s)) (report_of (detectSSR_try_min e s))"
    unfolding t using settled_advances [OF settled_after_manifest_min] by simp
  show ?thesis by (rule advances_trans [OF a b])
qed

lemma catch_all_extends:
  "\<exists>more. evidence (catch_all t) = evidence (report_of t) @ more"
  by (cases t rule: report_of.cases) (simp_all add: push_evidence_def)

lemma evidence_from_start:
  "\<exists>new. evidence (detectSSR e s) = evidence (start_report s) @ new"
  "\<exists>new. evidence (detectSSR_min e s) = evidence (start_report s) @ new"
proof -
  have "\<exists>new. evidence (catch_all t) = evidence (start_report s) @ new"
    if adv: "advances (start_report s) (report_of t)" for t
  proof -
    obtain new where n: "evidence (report_of t) = evidence (start_report s) @ new"
      using adv by (auto simp: advances_def)
    obtain more where "evidence (catch_all t) = evidence (report_of t) @ more"
      using catch_all_extends by blast
    then show ?thesis using n by simp
  qed
  then show "\<exists>new. evidence (detectSSR e s) = evidence (start_report s) @ new"
    and "\<exists>new. evidence (detectSSR_min e s) = evidence (start_report s) @ new"
    using try_advances try_min_advances by (simp_all add: detectSSR_def detectSSR_min_def)
qed

lemma remote_first_line:
  assumes "owner_repo s = Some (ow, rp)"
  shows "hd (evidence (detectSSR e s)) = ''Analyzing GitHub repository: '' @ ow @ ''/'' @ rp"
    and "hd (evidence (detectSSR_min e s)) = ''Analyzing GitHub repository: '' @ ow @ ''/'' @ rp"
proof -
  have s: "evidence (start_report s) = [''Analyzing GitHub repository: '' @ ow @ ''/'' @ rp]"
    using assms by (simp add: start_report_def push_evidence_def initial_report_def)
  show "hd (evidence (detectSSR e s)) = ''Analyzing GitHub repository: '' @ ow @ ''/'' @ rp"
    using evidence_from_start(1) [of e s] s by auto
  show "hd (evidence (detectSSR_min e s)) = ''Analyzing GitHub repository: '' @ ow @ ''/'' @ rp"
    using evidence_from_start(2) [of e s] s by auto
qed

lemma start_report_no_error: "\<not> list_ex error_line (evidence (start_report s))"
  by (simp add: start_report_def initial_report_def push_evidence_def error_line_def
      split: option.splits)

lemma advances_no_error:
  "advances r r' \<Longrightarrow> \<not> list_ex error_line (evidence r) \<Longrightarrow> \<not> list_ex error_line (evidence r')"
  by (auto simp: advances_def list_ex_iff)

lemma advances_needsSSR: "advances r r' \<Longrightarrow> needsSSR r \<Longrightarrow> needsSSR r'"
  by (simp add: advances_def)

lemma settled_needsSSR: "settled r r' \<Longrightarrow> needsSSR r \<Longrightarrow> needsSSR r'"
  by (simp add: settled_def advances_def)

lemma settled_after_pattern:
  "settled (report_of o4)
     (report_of (case o4 of Inl thrown \<Rightarrow> Inl thrown | Inr r4 \<Rightarrow> Inr (final_rule r4)))"
proof (cases o4)
  case (Inl t)
  then show ?thesis by (cases t) (simp add: settled_refl)
next
  case (Inr r4)
  then show ?thesis by (simp add: settled_final_rule)
qed

lemma settled_after_directory:
  "settled (report_of o3)
     (report_of (case o3 of
        Inl thrown \<Rightarrow> Inl thrown
      | Inr r3 \<Rightarrow>
          (case pattern_detector e s r3 of
             Inl thrown \<Rightarrow> Inl thrown
           | Inr r4 \<Rightarrow> Inr (final_rule r4))))"
proof (cases o3)
  case (Inl t)
  then show ?thesis by (cases t) (simp add: settled_refl)
next
  case (Inr r3)
  have "settled r3 (report_of (pattern_detector e s r3))"
    by (rule settled_pattern_detector)
  then show ?thesis
    using Inr settled_after_pattern [of "pattern_detector e s r3"] settled_trans by fastforce
qed

lemma settled_after_config:
  "settled r2 (report_of
     (case directory_detector e s st r2 of
        Inl thrown \<Rightarrow> Inl thrown
      | Inr r3 \<Rightarrow>
          (case pattern_detector e s r3 of
             Inl thrown \<Rightarrow> Inl thrown
           | Inr r4 \<Rightarrow> Inr (final_rule r4))))"
  using settled_directory_detector [of r2 e s st]
    settled_after_directory [of "directory_detector e s st r2" e s] settled_trans
  by blast

lemma catch_all_needsSSR: "needsSSR (catch_all t) = needsSSR (report_of t)"
  by (cases t rule: report_of.cases) (simp_all add: push_evidence_def)

lemma catch_all_confidence: "confidence (catch_all t) = confidence (report_of t)"
  by (cases t rule: report_of.cases) (simp_all add: push_evidence_def)

lemma catch_all_framework: "frameworkDetected (catch_all t) = frameworkDetected (report_of t)"
  by (cases t rule: report_of.cases) (simp_all add: push_evidence_def)

section \<open>The threshold\<close>

lemma scored_fold:
  assumes "\<And>x r. scored r \<Longrightarrow> scored (f x r)"
  shows "scored r \<Longrightarrow> scored (fold f xs r)"
  by (induction xs arbitrary: r) (simp_all add: assms)

lemma scored_framework_step: "scored r \<Longrightarrow> scored (framework_step deps x r)"
  by (cases x) (simp add: scored_def)

lemma scored_config_step: "scored r \<Longrightarrow> scored (config_step ex x r)"
  by (cases x) (simp add: scored_def)

lemma scored_start_report: "scored (start_report s)"
  by (simp add: scored_def start_report_def initial_report_def push_evidence_def
      split: option.splits)

lemma confidence_start_report: "confidence (start_report s) = 0"
  by (simp add: start_report_def initial_report_def push_evidence_def split: option.splits)

lemma scored_manifest_detector_min: "scored r \<Longrightarrow> scored (manifest_detector_min pj r)"
  by (simp add: manifest_detector_min_def scored_fold scored_framework_step split: option.splits)

lemma scored_config_detector: "scored r \<Longrightarrow> scored (config_detector e s st r)"
  by (simp add: config_detector_def scored_fold scored_config_step split: option.splits)

lemma scored_final_rule: "scored r \<Longrightarrow> scored (final_rule r)"
  by (simp add: scored_def final_rule_def)

lemma scored_push_evidence: "scored r \<Longrightarrow> scored (push_evidence l r)"
  by (simp add: scored_def push_evidence_def)

lemma scored_detectSSR_min: "scored (detectSSR_min e s)"
  using try_min_cases [of e s]
proof (elim disjE exE conjE)
  fix msg assume "detectSSR_try_min e s = Inl (msg, start_report s)"
  then show ?thesis
    by (simp add: detectSSR_min_def scored_push_evidence scored_start_report)
next
  fix pj st
  assume "detectSSR_try_min e s =
           Inr (final_rule (config_detector e s st (manifest_detector_min pj (start_report s))))"
  then show ?thesis
    by (simp add: detectSSR_min_def scored_final_rule scored_config_detector
        scored_manifest_detector_min scored_start_report)
qed

lemma final_rule_threshold: "30 < confidence (final_rule r) \<Longrightarrow> needsSSR (final_rule r)"
  by (simp add: final_rule_def split: if_splits)

lemma try_returns_final_rule: "detectSSR_try e s = Inr r \<Longrightarrow> \<exists>r4. r = final_rule r4"
  by (auto simp: detectSSR_try_def Let_def split: sum.splits prod.splits)

section \<open>The manifest detector\<close>

lemma has_dep_truthy: "has_dep (allDependencies pj) dep \<Longrightarrow> truthy pj"
  by (cases pj) (simp_all add: allDependencies_def or_empty_def has_dep_def obj_get_def)

lemma manifest_found_load:
  "manifest_found e s pj \<Longrightarrow> \<exists>st. load e b s initial_report = Inr (Some pj, st, start_report s)"
  by (auto simp: manifest_found_def load_def load_local_def load_remote_def parse_manifest_def
      start_report_def Let_def split: option.splits sum.splits)

lemma advances_evidence: "advances r r' \<Longrightarrow> l \<in> set (evidence r) \<Longrightarrow> l \<in> set (evidence r')"
  by (auto simp: advances_def)

lemma advances_confidence: "advances r r' \<Longrightarrow> confidence r \<le> confidence r'"
  by (simp add: advances_def)

lemma settled_framework:
  "settled r r' \<Longrightarrow> frameworkDetected r = Some f \<Longrightarrow> f \<noteq> [] \<Longrightarrow> frameworkDetected r' = Some f"
  by (simp add: settled_def)

lemma framework_loop_finds:
  assumes "(dep, framework) \<in> set tbl" and "has_dep deps dep"
  shows "''Found SSR framework: '' @ framework @ '' ('' @ dep @ '')''
           \<in> set (evidence (fold (framework_step deps) tbl r))
         \<and> needsSSR (fold (framework_step deps) tbl r)
         \<and> confidence r + 30 \<le> confidence (fold (framework_step deps) tbl r)"
  using assms(1)
proof (induction tbl arbitrary: r)
  case Nil
  then show ?case by simp
next
  case (Cons x tbl)
  let ?l = "''Found SSR framework: '' @ framework @ '' ('' @ dep @ '')''"
  have a: "advances r (framework_step deps x r)" by (rule advances_framework_step)
  have b: "advances (framework_step deps x r) (fold (framework_step deps) tbl (framework_step deps x r))"
    by (rule advances_fold) (rule advances_framework_step)
  show ?case
  proof (cases "x = (dep, framework)")
    case True
    have "?l \<in> set (evidence (framework_step deps x r))"
      and "needsSSR (framework_step deps x r)"
      and "confidence r + 30 \<le> confidence (framework_step deps x r)"
      using True assms(2) by simp_all
    then show ?thesis
      using b advances_evidence advances_needsSSR advances_confidence by fastforce
  next
    case False
    then have "(dep, framework) \<in> set tbl" using Cons.prems by simp
    from Cons.IH [OF this, of "framework_step deps x r"] a
    show ?thesis using advances_confidence by fastforce
  qed
qed

lemma framework_loop_names:
  assumes "\<forall>d f. (d, f) \<in> set tbl \<and> has_dep deps d \<longrightarrow> f = framework"
  shows "frameworkDetected (fold (framework_step deps) tbl r)
         = (if \<exists>d f. (d, f) \<in> set tbl \<and> has_dep deps d then Some framework
            else frameworkDetected r)"
  using assms
proof (induction tbl arbitrary: r)
  case Nil
  then show ?case by simp
next
  case (Cons x tbl)
  obtain d f where x: "x = (d, f)" by (cases x)
  have t: "\<forall>d f. (d, f) \<in> set tbl \<and> has_dep deps d \<longrightarrow> f = framework"
    using Cons.prems by auto
  show ?case
  proof (cases "has_dep deps d")
    case True
    then have "f = framework" using Cons.prems x by auto
    then show ?thesis using Cons.IH [OF t] x True by auto
  next
    case False
    then show ?thesis using Cons.IH [OF t] x by auto
  qed
qed

lemma ssrFrameworks_named: "(d, f) \<in> set ssrFrameworks \<Longrightarrow> f \<noteq> []"
  by (auto simp: ssrFrameworks_def)

lemma settled_manifest_tail:
  "settled r (fold (package_step deps) serverPackages (fold (library_step deps) ssrLibraries r))"
proof -
  have a: "settled r (fold (library_step deps) ssrLibraries r)" for r
    by (rule settled_fold) (rule settled_library_step)
  have b: "settled r (fold (package_step deps) serverPackages r)" for r
    by (rule settled_fold) (rule settled_package_step)
  show ?thesis by (rule settled_trans [OF a b])
qed

lemma settled_after_frameworks:
  assumes "manifest_found e s pj" and "truthy pj"
  shows "settled (fold (framework_step (allDependencies pj)) ssrFrameworks (start_report s))
           (report_of (detectSSR_try e s))"
    and "settled (fold (framework_step (allDependencies pj)) ssrFrameworks (start_report s))
           (report_of (detectSSR_try_min e s))"
proof -
  let ?rA = "fold (framework_step (allDependencies pj)) ssrFrameworks (start_report s)"
  obtain st where l: "load e buildRepoStructure s initial_report = Inr (Some pj, st, start_report s)"
    using manifest_found_load [OF assms(1)] by blast
  have m: "settled ?rA (manifest_detector (Some pj) (start_report s))"
    using assms(2) settled_manifest_tail by (simp add: manifest_detector_def Let_def)
  have t: "settled (manifest_detector (Some pj) (start_report s)) (report_of (detectSSR_try e s))"
    using l settled_after_manifest [of "manifest_detector (Some pj) (start_report s)" e s st]
    by (simp add: detectSSR_try_def Let_def)
  show "settled ?rA (report_of (detectSSR_try e s))"
    by (rule settled_trans [OF m t])
  obtain st' where l': "load e buildRepoStructure_min s initial_report
      = Inr (Some pj, st', start_report s)"
    using manifest_found_load [OF assms(1)] by blast
  have m': "manifest_detector_min (Some pj) (start_report s) = ?rA"
    using assms(2) by (simp add: manifest_detector_min_def)
  show "settled ?rA (report_of (detectSSR_try_min e s))"
    using l' m' settled_after_manifest_min [of ?rA e s st']
    by (simp add: detectSSR_try_min_def Let_def)
qed

lemma catch_all_evidence: "l \<in> set (evidence (report_of t)) \<Longrightarrow> l \<in> set (evidence (catch_all t))"
  by (cases t rule: report_of.cases) (simp_all add: push_evidence_def)

lemma settled_found:
  assumes "settled rA (report_of t)"
    and "l \<in> set (evidence rA) \<and> needsSSR rA \<and> 30 \<le> confidence rA"
  shows "l \<in> set (evidence (catch_all t)) \<and> needsSSR (catch_all t) \<and> 30 \<le> confidence (catch_all t)"
proof -
  have a: "advances rA (report_of t)" using assms(1) by (rule settled_advances)
  have "l \<in> set (evidence (report_of t))" using a assms(2) advances_evidence by blast
  moreover have "needsSSR (report_of t)" using a assms(2) advances_needsSSR by blast
  moreover have "30 \<le> confidence (report_of t)" using advances_confidence [OF a] assms(2) by simp
  ultimately show ?thesis
    by (simp add: catch_all_evidence catch_all_needsSSR catch_all_confidence)
qed

section \<open>Malformed and missing input\<close>

lemma manifest_rejected_load:
  "manifest_rejected e s msg \<Longrightarrow> load e b s initial_report = Inl (msg, start_report s)"
  by (auto simp: manifest_rejected_def load_def load_local_def load_remote_def parse_manifest_def
      start_report_def Let_def split: option.splits sum.splits)





section \<open>The remote walk\<close>

lemma buildRepoStructure_bound:
  "length (fst st) \<le> length (fst (buildRepoStructure_at path answer st))
   \<and> snd (buildRepoStructure_at path answer st) + min 99 (length (fst st))
       \<le> snd st + 1 + min 99 (length (fst (buildRepoStructure_at path answer st)))"
  "length (fst st) \<le> length (fst (buildRepoStructure_for path contents st))
   \<and> snd (buildRepoStructure_for path contents st) + min 99 (length (fst st))
       \<le> snd st + min 99 (length (fst (buildRepoStructure_for path contents st)))"
proof (induction path answer st and path contents st
    rule: buildRepoStructure_at_buildRepoStructure_for.induct)
  case (1 path contents "structure" requests)
  then show ?case by simp
next
  case (2 path item "structure" requests)
  then show ?case by simp
next
  case (3 path "structure" requests)
  then show ?case by simp
next
  case (4 path st)
  then show ?case by simp
next
  case (5 path name type answer contents "structure" requests)
  let ?itemPath = "if path \<noteq> [] then path @ ''/'' @ name else name"
  let ?s1 = "structure @ [?itemPath]"
  let ?go = "type = ''dir'' \<and> length ?s1 < 100"
  let ?st2 = "if ?go then buildRepoStructure_at ?itemPath answer (?s1, requests)
              else (?s1, requests)"
  have e: "buildRepoStructure_for path (Item name type answer # contents) (structure, requests)
      = buildRepoStructure_for path contents ?st2"
    by (simp only: buildRepoStructure_for.simps Let_def)
  have b: "length (fst ?st2) \<le> length (fst (buildRepoStructure_for path contents ?st2))
    \<and> snd (buildRepoStructure_for path contents ?st2) + min 99 (length (fst ?st2))
        \<le> snd ?st2 + min 99 (length (fst (buildRepoStructure_for path contents ?st2)))"
    by (rule "5.IH"(2) [OF refl refl])
  have a: "length structure \<le> length (fst ?st2)
    \<and> snd ?st2 + min 99 (length structure) \<le> requests + min 99 (length (fst ?st2))"
  proof (cases ?go)
    case True
    have "length (fst (?s1, requests))
        \<le> length (fst (buildRepoStructure_at ?itemPath answer (?s1, requests)))
      \<and> snd (buildRepoStructure_at ?itemPath answer (?s1, requests))
          + min 99 (length (fst (?s1, requests)))
          \<le> snd (?s1, requests) + 1
            + min 99 (length (fst (buildRepoStructure_at ?itemPath answer (?s1, requests))))"
      by (rule "5.IH"(1) [OF refl refl True])
    then show ?thesis using True by (simp split: if_splits)
  next
    case False
    then show ?thesis by auto
  qed
  show ?case unfolding e using a b by (simp only: fst_conv snd_conv) linarith
qed

section \<open>Owner and repository name\<close>

text \<open>
  C7. From a string that matches the pattern the analysis takes the owner as the first
  segment and the repository name as the second one, from which
  \<open>replace('.git', '')\<close> removes the first occurrence of \<open>.git\<close>, wherever it is.
  For \<open>https://github.com/acme/widgets.git\<close> that gives \<open>acme\<close> and
  \<open>widgets\<close>; for \<open>https://github.com/acme/acme.github.io\<close> it gives the
  repository name \<open>acmehub.io\<close>, although that name has no trailing \<open>.git\<close>.
\<close>

theorem owner_repo_removes_first_git:
  "owner_repo ''https://github.com/acme/widgets.git'' = Some (''acme'', ''widgets'')
   \<and> owner_repo ''https://github.com/acme/acme.github.io'' = Some (''acme'', ''acmehub.io'')"
  by (simp add: owner_repo_def match_here_def not_slash_def)

section \<open>Remote or local\<close>

text \<open>
  C9. The classification is an unanchored substring test: every input that holds
  \<open>github.com/\<close>, a non-empty segment without a slash, a slash and another such
  segment, anywhere, is taken as a remote repository, also a local path such as
  \<open>/tmp/github.com/a/b\<close>. Such an input is never analysed as a local directory:
  the report does not depend on the local file system, in either variant.
\<close>

theorem github_substring_is_remote:
  assumes "owner \<noteq> [] \<and> CHR ''/'' \<notin> set owner" and "repo \<noteq> [] \<and> CHR ''/'' \<notin> set repo"
  shows "isGithubUrl (pre @ ''github.com/'' @ owner @ ''/'' @ repo @ post)
    \<and> detectSSR (e\<lparr>local_fs := fs\<rparr>) (pre @ ''github.com/'' @ owner @ ''/'' @ repo @ post)
        = detectSSR e (pre @ ''github.com/'' @ owner @ ''/'' @ repo @ post)
    \<and> detectSSR_min (e\<lparr>local_fs := fs\<rparr>) (pre @ ''github.com/'' @ owner @ ''/'' @ repo @ post)
        = detectSSR_min e (pre @ ''github.com/'' @ owner @ ''/'' @ repo @ post)
    \<and> (\<exists>ow rp. owner_repo (pre @ ''github.com/'' @ owner @ ''/'' @ repo @ post) = Some (ow, rp)
          \<and> hd (evidence (detectSSR e (pre @ ''github.com/'' @ owner @ ''/'' @ repo @ post)))
              = ''Analyzing GitHub repository: '' @ ow @ ''/'' @ rp
          \<and> hd (evidence (detectSSR_min e (pre @ ''github.com/'' @ owner @ ''/'' @ repo @ post)))
              = ''Analyzing GitHub repository: '' @ ow @ ''/'' @ rp)"
proof -
  let ?s = "pre @ ''github.com/'' @ owner @ ''/'' @ repo @ post"
  have "match_here (''github.com/'' @ owner @ ''/'' @ repo @ post) \<noteq> None"
    using assms match_here_segments [of owner repo post] by simp
  then have "github_match (''github.com/'' @ owner @ ''/'' @ repo @ post) \<noteq> None"
    by (rule github_match_cons)
  then have m: "github_match ?s \<noteq> None"
    by (rule github_match_append)
  then have g: "isGithubUrl ?s" by (simp add: isGithubUrl_def)
  then obtain ow rp where o: "owner_repo ?s = Some (ow, rp)"
    by (auto simp: isGithubUrl_owner_repo)
  have l: "detectSSR (e\<lparr>local_fs := fs\<rparr>) ?s = detectSSR e ?s
     \<and> detectSSR_min (e\<lparr>local_fs := fs\<rparr>) ?s = detectSSR_min e ?s"
    using remote_ignores_local_fs [OF o] by (simp add: detectSSR_def detectSSR_min_def)
  show ?thesis
    using g l o remote_first_line [OF o] by blast
qed

text \<open>
  The local path \<open>/tmp/github.com/a/b\<close>: whether a directory with a manifest is
  there or nothing at all, the report is the same and starts with the line that names
  the repository \<open>a/b\<close>.
\<close>

theorem github_substring_is_remote_witness:
  "isGithubUrl ''/tmp/github.com/a/b''
   \<and> detectSSR
        ((world (\<lambda>p. None) example_parse)
           \<lparr>local_fs := map_of [(''/tmp/github.com/a/b/package.json'', File manifest_next)]\<rparr>)
        ''/tmp/github.com/a/b''
      = detectSSR (world (\<lambda>p. None) example_parse) ''/tmp/github.com/a/b''
   \<and> owner_repo ''/tmp/github.com/a/b'' = Some (''a'', ''b'')
   \<and> hd (evidence (detectSSR (world (\<lambda>p. None) example_parse) ''/tmp/github.com/a/b''))
      = ''Analyzing GitHub repository: a/b''"
proof -
  have o: "owner_repo ''/tmp/github.com/a/b'' = Some (''a'', ''b'')"
    by (simp add: owner_repo_def match_here_def not_slash_def)
  show ?thesis
    using o github_substring_is_remote [where owner = "''a''" and repo = "''b''"
        and pre = "''/tmp/''" and post = "[]" and e = "world (\<lambda>p. None) example_parse"
        and fs = "map_of [(''/tmp/github.com/a/b/package.json'', File manifest_next)]"]
    by auto
qed

section \<open>The verdict is never taken back\<close>

text \<open>
  C8. During one run \<open>needsSSR\<close> is monotone. It starts false; every step of the
  analysis (each loop body, each detector, the final rule and the \<open>catch\<close> block)
  leaves a true verdict true; hence a verdict that is true after any detector of a run,
  whether that detector returned or threw, is true in the returned report, in both
  variants.
\<close>

theorem needsSSR_never_reset:
  "\<not> needsSSR initial_report
   \<and> (needsSSR r \<longrightarrow> needsSSR (framework_step deps x r))
   \<and> (needsSSR r \<longrightarrow> needsSSR (library_step deps lib r))
   \<and> (needsSSR r \<longrightarrow> needsSSR (package_step deps pkg r))
   \<and> (needsSSR r \<longrightarrow> needsSSR (config_step fileExists y r))
   \<and> (needsSSR r \<longrightarrow> needsSSR (directory_step_remote rr st z r))
   \<and> (needsSSR r \<longrightarrow> needsSSR (report_of (directory_loop_local e p ds r)))
   \<and> (needsSSR r \<longrightarrow> needsSSR (report_of (pattern_detector e s r)))
   \<and> (needsSSR r \<longrightarrow> needsSSR (final_rule r))
   \<and> (needsSSR (report_of t) \<longrightarrow> needsSSR (catch_all t))
   \<and> (load e buildRepoStructure s initial_report = Inr (pj, st, r0) \<longrightarrow>
        needsSSR (manifest_detector pj r0)
        \<or> needsSSR (config_detector e s st (manifest_detector pj r0))
        \<or> needsSSR (report_of (directory_detector e s st
             (config_detector e s st (manifest_detector pj r0))))
        \<or> (\<exists>r3. directory_detector e s st
             (config_detector e s st (manifest_detector pj r0)) = Inr r3
             \<and> needsSSR (report_of (pattern_detector e s r3))) \<longrightarrow>
        needsSSR (detectSSR e s))
   \<and> (load e buildRepoStructure_min s initial_report = Inr (pj, st, r0) \<longrightarrow>
        needsSSR (manifest_detector_min pj r0)
        \<or> needsSSR (config_detector e s st (manifest_detector_min pj r0)) \<longrightarrow>
        needsSSR (detectSSR_min e s))"
proof (intro conjI impI)
  show "\<not> needsSSR initial_report" by (simp add: initial_report_def)
  show "needsSSR (framework_step deps x r)" if "needsSSR r"
    using that advances_framework_step advances_needsSSR by blast
  show "needsSSR (library_step deps lib r)" if "needsSSR r"
    using that settled_library_step settled_needsSSR by blast
  show "needsSSR (package_step deps pkg r)" if "needsSSR r"
    using that settled_package_step settled_needsSSR by blast
  show "needsSSR (config_step fileExists y r)" if "needsSSR r"
    using that settled_config_step settled_needsSSR by blast
  show "needsSSR (directory_step_remote rr st z r)" if "needsSSR r"
    using that settled_directory_step_remote settled_needsSSR by blast
  show "needsSSR (report_of (directory_loop_local e p ds r))" if "needsSSR r"
    using that settled_directory_loop_local settled_needsSSR by blast
  show "needsSSR (report_of (pattern_detector e s r))" if "needsSSR r"
    using that settled_pattern_detector settled_needsSSR by blast
  show "needsSSR (final_rule r)" if "needsSSR r"
    using that settled_final_rule settled_needsSSR by blast
  show "needsSSR (catch_all t)" if "needsSSR (report_of t)"
    using that by (simp add: catch_all_needsSSR)
next
  let ?r1 = "manifest_detector pj r0"
  let ?r2 = "config_detector e s st ?r1"
  let ?o3 = "directory_detector e s st ?r2"
  let ?rest = "\<lambda>o3. case o3 of
        Inl thrown \<Rightarrow> Inl thrown
      | Inr r3 \<Rightarrow>
          (case pattern_detector e s r3 of
             Inl thrown \<Rightarrow> Inl thrown
           | Inr r4 \<Rightarrow> Inr (final_rule r4))"
  assume l: "load e buildRepoStructure s initial_report = Inr (pj, st, r0)"
    and d: "needsSSR ?r1 \<or> needsSSR ?r2 \<or> needsSSR (report_of ?o3)
        \<or> (\<exists>r3. ?o3 = Inr r3 \<and> needsSSR (report_of (pattern_detector e s r3)))"
  have t: "detectSSR_try e s = ?rest ?o3"
    using l by (simp add: detectSSR_try_def Let_def)
  have s1: "settled ?r1 ?r2" by (rule settled_config_detector)
  have s2: "settled ?r2 (report_of (?rest ?o3))" by (rule settled_after_config)
  have s3: "settled (report_of ?o3) (report_of (?rest ?o3))" by (rule settled_after_directory)
  have s4: "needsSSR (report_of (?rest ?o3))"
    if "?o3 = Inr r3" "needsSSR (report_of (pattern_detector e s r3))" for r3
    using that settled_after_pattern [of "pattern_detector e s r3"] settled_needsSSR
    by fastforce
  have "needsSSR (report_of (?rest ?o3))"
    using d s1 s2 s3 s4 settled_needsSSR by blast
  then show "needsSSR (detectSSR e s)"
    by (simp add: detectSSR_def catch_all_needsSSR t)
next
  let ?r1 = "manifest_detector_min pj r0"
  let ?r2 = "config_detector e s st ?r1"
  assume l: "load e buildRepoStructure_min s initial_report = Inr (pj, st, r0)"
    and d: "needsSSR ?r1 \<or> needsSSR ?r2"
  have t: "detectSSR_try_min e s = Inr (final_rule ?r2)"
    using l by (simp add: detectSSR_try_min_def Let_def)
  have s1: "settled ?r1 ?r2" by (rule settled_config_detector)
  have s2: "settled ?r2 (final_rule ?r2)" by (rule settled_final_rule)
  have "needsSSR (final_rule ?r2)"
    using d s1 s2 settled_needsSSR by blast
  then show "needsSSR (detectSSR_min e s)"
    by (simp add: detectSSR_min_def t)
qed

theorem needsSSR_never_reset_witness:
  "load (world (project_fs [(''package.json'', File manifest_next)]) example_parse)
      buildRepoStructure ''/proj'' initial_report
     = Inr (Some (JObj [(''dependencies'', JObj [(''next'', JStr ''13.0.0'')])]), [], initial_report)
   \<and> needsSSR (manifest_detector
         (Some (JObj [(''dependencies'', JObj [(''next'', JStr ''13.0.0'')])])) initial_report)
   \<and> needsSSR (detectSSR (world (project_fs [(''package.json'', File manifest_next)]) example_parse)
         ''/proj'')
   \<and> needsSSR (initial_report\<lparr>needsSSR := True\<rparr>)
   \<and> needsSSR (final_rule (initial_report\<lparr>needsSSR := True\<rparr>))"
proof -
  let ?W = "world (project_fs [(''package.json'', File manifest_next)]) example_parse"
  let ?pj = "JObj [(''dependencies'', JObj [(''next'', JStr ''13.0.0'')])]"
  have l: "load ?W buildRepoStructure ''/proj'' initial_report = Inr (Some ?pj, [], initial_report)"
    by code_simp
  have m: "needsSSR (manifest_detector (Some ?pj) initial_report)"
    by code_simp
  have t: "needsSSR (initial_report\<lparr>needsSSR := True\<rparr>)" by simp
  show ?thesis
    using l m t
      needsSSR_never_reset [where e = ?W and s = "''/proj''" and pj = "Some ?pj" and st = "[]"
        and ?r0.0 = initial_report and r = "initial_report\<lparr>needsSSR := True\<rparr>"]
    by blast
qed

section \<open>Errors end in the report\<close>

text \<open>
  C6. \<open>detectSSR\<close> returns a report for every input and every world and never
  throws: either the \<open>try\<close> block ends normally and its report is returned, with no
  error line in the evidence, or an error leaves the block with the report as it was at
  that moment, and that report is returned as it is but for exactly one more evidence
  line, \<open>Error analyzing repository: \<close> followed by the message, the only error line
  of the evidence. Both variants.
\<close>

theorem detectSSR_always_returns:
  "((\<exists>r. detectSSR_try e s = Inr r \<and> detectSSR e s = r
          \<and> filter error_line (evidence (detectSSR e s)) = [])
    \<or> (\<exists>msg r. detectSSR_try e s = Inl (msg, r)
          \<and> detectSSR e s = r\<lparr>evidence := evidence r @ [''Error analyzing repository: '' @ msg]\<rparr>
          \<and> filter error_line (evidence (detectSSR e s))
              = [''Error analyzing repository: '' @ msg]))
   \<and> ((\<exists>r. detectSSR_try_min e s = Inr r \<and> detectSSR_min e s = r
          \<and> filter error_line (evidence (detectSSR_min e s)) = [])
    \<or> (\<exists>msg r. detectSSR_try_min e s = Inl (msg, r)
          \<and> detectSSR_min e s = r\<lparr>evidence := evidence r @ [''Error analyzing repository: '' @ msg]\<rparr>
          \<and> filter error_line (evidence (detectSSR_min e s))
              = [''Error analyzing repository: '' @ msg]))"
proof -
  have clean: "filter error_line (evidence r) = []"
    if "advances (start_report s) r" for r
    using advances_no_error [OF that start_report_no_error]
    by (simp add: list_ex_iff filter_empty_conv)
  have el: "error_line (''Error analyzing repository: '' @ msg)" for msg
    by (simp add: error_line_def)
  have main: "(\<exists>r. t = Inr r \<and> catch_all t = r \<and> filter error_line (evidence (catch_all t)) = [])
    \<or> (\<exists>msg r. t = Inl (msg, r)
          \<and> catch_all t = r\<lparr>evidence := evidence r @ [''Error analyzing repository: '' @ msg]\<rparr>
          \<and> filter error_line (evidence (catch_all t))
              = [''Error analyzing repository: '' @ msg])"
    if "advances (start_report s) (report_of t)" for t
  proof (cases t rule: report_of.cases)
    case (1 r)
    then show ?thesis using clean that by simp
  next
    case (2 msg r)
    then show ?thesis using clean [of r] that el by (simp add: push_evidence_def)
  qed
  show ?thesis
    unfolding detectSSR_def detectSSR_min_def
    using main [OF try_advances] main [OF try_min_advances] by blast
qed

section \<open>The final rule\<close>

text \<open>
  C1, as amended. The rule \<open>if confidence > 30 then needsSSR = true\<close> is the last
  statement of the \<open>try\<close> block. In the minimal variant every returned report with
  \<open>confidence > 30\<close> has \<open>needsSSR\<close> true. In the extended variant the same
  holds for every run in which no error reaches the \<open>catch\<close> block; an error
  thrown after the manifest has been scored leaves the block before the rule, and the
  report is returned as it was.
\<close>

theorem threshold_rule_unless_thrown:
  "(30 < confidence (detectSSR_min e s) \<longrightarrow> needsSSR (detectSSR_min e s))
   \<and> ((\<exists>r. detectSSR_try e s = Inr r) \<longrightarrow>
        30 < confidence (detectSSR e s) \<longrightarrow> needsSSR (detectSSR e s))"
proof (intro conjI impI)
  assume "30 < confidence (detectSSR_min e s)"
  then show "needsSSR (detectSSR_min e s)"
    using scored_detectSSR_min [of e s] by (simp add: scored_def)
next
  assume "\<exists>r. detectSSR_try e s = Inr r" and c: "30 < confidence (detectSSR e s)"
  then obtain r where r: "detectSSR_try e s = Inr r" by blast
  then obtain r4 where "r = final_rule r4" using try_returns_final_rule by blast
  then show "needsSSR (detectSSR e s)"
    using r c final_rule_threshold by (simp add: detectSSR_def)
qed

theorem threshold_rule_unless_thrown_witness:
  "detectSSR_try (world (project_fs [(''package.json'', File manifest_libraries)]) example_parse)
      ''/proj''
     = Inr \<lparr>needsSSR = True,
            evidence = [''Found potential SSR library: react-dom'',
                        ''Found potential SSR library: vue-server-renderer'',
                        ''Found potential SSR library: preact-render-to-string'',
                        ''Found potential SSR library: svelte''],
            frameworkDetected = None, confidence = 40\<rparr>
   \<and> 30 < confidence (detectSSR
         (world (project_fs [(''package.json'', File manifest_libraries)]) example_parse) ''/proj'')
   \<and> needsSSR (detectSSR
         (world (project_fs [(''package.json'', File manifest_libraries)]) example_parse) ''/proj'')"
proof -
  let ?W = "world (project_fs [(''package.json'', File manifest_libraries)]) example_parse"
  have t: "detectSSR_try ?W ''/proj''
     = Inr \<lparr>needsSSR = True,
            evidence = [''Found potential SSR library: react-dom'',
                        ''Found potential SSR library: vue-server-renderer'',
                        ''Found potential SSR library: preact-render-to-string'',
                        ''Found potential SSR library: svelte''],
            frameworkDetected = None, confidence = 40\<rparr>"
    by code_simp
  have c: "30 < confidence (detectSSR ?W ''/proj'')"
    by (simp add: detectSSR_def t)
  show ?thesis
    using t c threshold_rule_unless_thrown [of ?W "''/proj''"] by blast
qed

text \<open>
  A local project whose manifest names four SSR libraries (10 each, none of which sets
  the verdict) and that holds a dangling symbolic link: \<open>fs.statSync\<close> throws in
  the file walk of \<open>searchForPattern\<close>, and the extended variant returns
  \<open>confidence\<close> 40 with \<open>needsSSR\<close> false.
\<close>

theorem threshold_rule_skipped_counterexample:
  "30 < confidence (detectSSR
       (world (project_fs [(''package.json'', File manifest_libraries), (''link'', Dangling)])
          example_parse) ''/proj'')
   \<and> \<not> needsSSR (detectSSR
       (world (project_fs [(''package.json'', File manifest_libraries), (''link'', Dangling)])
          example_parse) ''/proj'')
   \<and> evidence (detectSSR
       (world (project_fs [(''package.json'', File manifest_libraries), (''link'', Dangling)])
          example_parse) ''/proj'')
     = [''Found potential SSR library: react-dom'',
        ''Found potential SSR library: vue-server-renderer'',
        ''Found potential SSR library: preact-render-to-string'',
        ''Found potential SSR library: svelte'',
        ''Error analyzing repository: ENOENT: no such file or directory, stat ''
          @ [CHR 0x27] @ ''/proj/link'' @ [CHR 0x27]]"
  by code_simp

section \<open>The framework name\<close>

text \<open>
  C2. The claim is that the first framework found in a run is the one reported. The
  loop over the configuration files sets the name only when none is set
  (\<open>results.frameworkDetected || framework\<close>), but the loop over the manifest's
  dependencies assigns it unconditionally: for a manifest that names both \<open>next\<close>
  and \<open>nuxt\<close> both variants report \<open>Nuxt.js\<close>, the later finding, while for a
  project with \<open>next.config.js\<close> and \<open>nuxt.config.js\<close> the first one,
  \<open>Next.js\<close>, stays.
\<close>

theorem framework_overwritten_by_later_dependency:
  "frameworkDetected (detectSSR
       (world (project_fs [(''package.json'', File manifest_next_nuxt)]) example_parse) ''/proj'')
     = Some ''Nuxt.js''
   \<and> frameworkDetected (detectSSR_min
       (world (project_fs [(''package.json'', File manifest_next_nuxt)]) example_parse) ''/proj'')
     = Some ''Nuxt.js''
   \<and> evidence (detectSSR_min
       (world (project_fs [(''package.json'', File manifest_next_nuxt)]) example_parse) ''/proj'')
     = [''Found SSR framework: Next.js (next)'', ''Found SSR framework: Nuxt.js (nuxt)'']
   \<and> frameworkDetected (detectSSR_min
       (world (project_fs [(''next.config.js'', File []), (''nuxt.config.js'', File [])])
          example_parse) ''/proj'')
     = Some ''Next.js''"
  by code_simp

section \<open>Framework dependencies\<close>

text \<open>
  C3, as amended. The loop tests \<open>allDependencies[dep]\<close> for truthiness. For every
  manifest the analysis finds, in local or remote mode, and every key of the framework
  table whose value in the merged dependencies is truthy (a non-empty version string),
  the loop body appends \<open>Found SSR framework: {framework} ({package})\<close>, sets the
  framework name, adds exactly 30 and sets \<open>needsSSR\<close>; the returned report of both
  variants holds that line, has \<open>needsSSR\<close> true and \<open>confidence\<close> at least 30;
  and when every table key with a truthy value names the same framework, that
  framework is the one reported. With \<open>"dependencies": {"next": "13.0.0"}\<close> in a
  local directory the report names \<open>Next.js\<close>.
\<close>

theorem framework_dependency_found:
  assumes "manifest_found e s pj"
    and "(dep, framework) \<in> set ssrFrameworks"
    and "has_dep (allDependencies pj) dep"
  shows "framework_step (allDependencies pj) (dep, framework) r
           = r\<lparr>evidence := evidence r @ [''Found SSR framework: '' @ framework @ '' ('' @ dep @ '')''],
               frameworkDetected := Some framework,
               confidence := confidence r + 30,
               needsSSR := True\<rparr>
     \<and> ''Found SSR framework: '' @ framework @ '' ('' @ dep @ '')'' \<in> set (evidence (detectSSR e s))
     \<and> needsSSR (detectSSR e s) \<and> 30 \<le> confidence (detectSSR e s)
     \<and> ''Found SSR framework: '' @ framework @ '' ('' @ dep @ '')'' \<in> set (evidence (detectSSR_min e s))
     \<and> needsSSR (detectSSR_min e s) \<and> 30 \<le> confidence (detectSSR_min e s)
     \<and> ((\<forall>d f. (d, f) \<in> set ssrFrameworks \<and> has_dep (allDependencies pj) d \<longrightarrow> f = framework) \<longrightarrow>
          frameworkDetected (detectSSR e s) = Some framework
          \<and> frameworkDetected (detectSSR_min e s) = Some framework)"
proof -
  let ?deps = "allDependencies pj"
  let ?l = "''Found SSR framework: '' @ framework @ '' ('' @ dep @ '')''"
  let ?rA = "fold (framework_step ?deps) ssrFrameworks (start_report s)"
  have tr: "truthy pj" using assms(3) by (rule has_dep_truthy)
  have s1: "settled ?rA (report_of (detectSSR_try e s))"
    and s2: "settled ?rA (report_of (detectSSR_try_min e s))"
    using settled_after_frameworks [OF assms(1) tr] by simp_all
  have f: "?l \<in> set (evidence ?rA) \<and> needsSSR ?rA \<and> 30 \<le> confidence ?rA"
    using framework_loop_finds [OF assms(2,3), of "start_report s"]
    by (simp add: confidence_start_report)
  have step: "framework_step ?deps (dep, framework) r
           = r\<lparr>evidence := evidence r @ [?l], frameworkDetected := Some framework,
               confidence := confidence r + 30, needsSSR := True\<rparr>"
    using assms(3) by simp
  have name: "frameworkDetected (detectSSR e s) = Some framework
          \<and> frameworkDetected (detectSSR_min e s) = Some framework"
    if only: "\<forall>d f. (d, f) \<in> set ssrFrameworks \<and> has_dep ?deps d \<longrightarrow> f = framework"
  proof -
    have "frameworkDetected ?rA = Some framework"
      using framework_loop_names [OF only, of "start_report s"] assms(2,3) by auto
    moreover have "framework \<noteq> []" using assms(2) by (rule ssrFrameworks_named)
    ultimately show ?thesis
      using s1 s2 settled_framework
      by (simp add: detectSSR_def detectSSR_min_def catch_all_framework)
  qed
  show ?thesis
    using step settled_found [OF s1 f] settled_found [OF s2 f] name
    by (simp add: detectSSR_def detectSSR_min_def)
qed

theorem framework_dependency_found_witness:
  "manifest_found (world (project_fs [(''package.json'', File manifest_next)]) example_parse)
      ''/proj'' (JObj [(''dependencies'', JObj [(''next'', JStr ''13.0.0'')])])
   \<and> ''Found SSR framework: Next.js (next)''
       \<in> set (evidence (detectSSR
             (world (project_fs [(''package.json'', File manifest_next)]) example_parse) ''/proj''))
   \<and> 30 \<le> confidence (detectSSR
         (world (project_fs [(''package.json'', File manifest_next)]) example_parse) ''/proj'')
   \<and> needsSSR (detectSSR
         (world (project_fs [(''package.json'', File manifest_next)]) example_parse) ''/proj'')
   \<and> frameworkDetected (detectSSR
         (world (project_fs [(''package.json'', File manifest_next)]) example_parse) ''/proj'')
       = Some ''Next.js''"
proof -
  let ?W = "world (project_fs [(''package.json'', File manifest_next)]) example_parse"
  let ?pj = "JObj [(''dependencies'', JObj [(''next'', JStr ''13.0.0'')])]"
  have m: "manifest_found ?W ''/proj'' ?pj" by code_simp
  have t: "(''next'', ''Next.js'') \<in> set ssrFrameworks" by (simp add: ssrFrameworks_def)
  have h: "has_dep (allDependencies ?pj) ''next''" by code_simp
  have only: "\<forall>d f. (d, f) \<in> set ssrFrameworks \<and> has_dep (allDependencies ?pj) d \<longrightarrow> f = ''Next.js''"
    by (auto simp: ssrFrameworks_def has_dep_def allDependencies_def or_empty_def obj_get_def)
  show ?thesis
    using m only framework_dependency_found [OF m t h] by simp
qed

text \<open>
  The key \<open>next\<close> with the empty version string is present in the merged map, and
  nothing is found.
\<close>

theorem empty_version_not_found_counterexample:
  "manifest_found (world (project_fs [(''package.json'', File manifest_next_empty)]) example_parse)
      ''/proj'' (JObj [(''dependencies'', JObj [(''next'', JStr [])])])
   \<and> obj_get (allDependencies (JObj [(''dependencies'', JObj [(''next'', JStr [])])])) ''next''
       = Some (JStr [])
   \<and> detectSSR (world (project_fs [(''package.json'', File manifest_next_empty)]) example_parse)
        ''/proj''
       = \<lparr>needsSSR = False, evidence = [], frameworkDetected = None, confidence = 0\<rparr>
   \<and> detectSSR_min (world (project_fs [(''package.json'', File manifest_next_empty)]) example_parse)
        ''/proj''
       = \<lparr>needsSSR = False, evidence = [], frameworkDetected = None, confidence = 0\<rparr>"
  by code_simp

section \<open>A malformed manifest\<close>

text \<open>
  C5, as amended. No guard surrounds \<open>JSON.parse\<close>: when the manifest exists and is
  malformed, the \<open>SyntaxError\<close> leaves the \<open>try\<close> block at once. It does not reach
  the caller: the \<open>catch\<close> block records it, and the report is the initial one (with
  the line naming the repository in remote mode) followed by
  \<open>Error analyzing repository: {message}\<close>, with \<open>needsSSR\<close> false, no framework
  and \<open>confidence\<close> 0. No detector runs, in either variant.
\<close>

theorem malformed_manifest_ends_analysis:
  assumes "manifest_rejected e s msg"
  shows "detectSSR e s = push_evidence (''Error analyzing repository: '' @ msg) (start_report s)
     \<and> detectSSR_min e s = push_evidence (''Error analyzing repository: '' @ msg) (start_report s)
     \<and> \<not> needsSSR (detectSSR e s) \<and> frameworkDetected (detectSSR e s) = None
     \<and> confidence (detectSSR e s) = 0"
proof -
  have a: "detectSSR e s = push_evidence (''Error analyzing repository: '' @ msg) (start_report s)"
    using manifest_rejected_load [OF assms, of buildRepoStructure]
    by (simp add: detectSSR_def detectSSR_try_def)
  have b: "detectSSR_min e s = push_evidence (''Error analyzing repository: '' @ msg) (start_report s)"
    using manifest_rejected_load [OF assms, of buildRepoStructure_min]
    by (simp add: detectSSR_min_def detectSSR_try_min_def)
  have c: "\<not> needsSSR (start_report s) \<and> frameworkDetected (start_report s) = None
     \<and> confidence (start_report s) = 0"
    by (simp add: start_report_def initial_report_def push_evidence_def split: option.splits)
  show ?thesis using a b c by (simp add: push_evidence_def)
qed

theorem malformed_manifest_ends_analysis_witness:
  "manifest_rejected
      (world (project_fs [(''package.json'', File manifest_truncated), (''next.config.js'', File [])])
         example_parse) ''/proj'' ''Unexpected end of JSON input''
   \<and> detectSSR
      (world (project_fs [(''package.json'', File manifest_truncated), (''next.config.js'', File [])])
         example_parse) ''/proj''
     = \<lparr>needsSSR = False,
        evidence = [''Error analyzing repository: Unexpected end of JSON input''],
        frameworkDetected = None, confidence = 0\<rparr>"
proof -
  let ?W = "world (project_fs [(''package.json'', File manifest_truncated),
      (''next.config.js'', File [])]) example_parse"
  have m: "manifest_rejected ?W ''/proj'' ''Unexpected end of JSON input''" by code_simp
  have s: "start_report ''/proj'' = initial_report" by code_simp
  show ?thesis
    using m malformed_manifest_ends_analysis [OF m]
    by (simp add: s push_evidence_def initial_report_def)
qed

text \<open>
  A local project with a truncated \<open>package.json\<close> and a \<open>next.config.js\<close>: the
  configuration file is there and is not reported, while the same project without a
  manifest is reported as Next.js.
\<close>

theorem malformed_manifest_counterexample:
  "existsSync
      (world (project_fs [(''package.json'', File manifest_truncated), (''next.config.js'', File [])])
         example_parse) (path_join ''/proj'' ''next.config.js'')
   \<and> detectSSR
      (world (project_fs [(''package.json'', File manifest_truncated), (''next.config.js'', File [])])
         example_parse) ''/proj''
     = \<lparr>needsSSR = False,
        evidence = [''Error analyzing repository: Unexpected end of JSON input''],
        frameworkDetected = None, confidence = 0\<rparr>
   \<and> detectSSR_min
      (world (project_fs [(''package.json'', File manifest_truncated), (''next.config.js'', File [])])
         example_parse) ''/proj''
     = \<lparr>needsSSR = False,
        evidence = [''Error analyzing repository: Unexpected end of JSON input''],
        frameworkDetected = None, confidence = 0\<rparr>
   \<and> detectSSR (world (project_fs [(''next.config.js'', File [])]) example_parse) ''/proj''
     = \<lparr>needsSSR = True,
        evidence = [''Found configuration file for Next.js: next.config.js''],
        frameworkDetected = Some ''Next.js'', confidence = 20\<rparr>"
  by code_simp

section \<open>A path that does not exist\<close>




section \<open>The cap of the remote walk\<close>

text \<open>
  C4, as amended. The cap of the extended variant guards the descent, not the
  collection: a subdirectory is listed only while fewer than 100 paths have been
  collected, so one walk issues at most 100 listing requests, whatever the repository
  holds; every item of a listing that was fetched is collected. The minimal variant
  collects the names of the root listing, all of them.
\<close>

theorem remote_walk_requests_bounded:
  "buildRepoStructure_requests answer \<le> 100
   \<and> length (buildRepoStructure_min (Listing contents)) = length contents"
  using buildRepoStructure_bound(1) [of "([], 0)" "[]" answer]
  by (simp add: buildRepoStructure_requests_def)

text \<open>A repository whose root holds 101 files: both variants collect 101 paths.\<close>

theorem remote_walk_counterexample:
  "length (buildRepoStructure
      (Listing (map (\<lambda>i. Item (string_of_nat i) ''file'' Failed) [0..<101]))) = 101
   \<and> length (buildRepoStructure_min
      (Listing (map (\<lambda>i. Item (string_of_nat i) ''file'' Failed) [0..<101]))) = 101"
  by code_simp

end
